theory Spec2Isabelle
  imports
    Complex_Main
    "HOL-Library.Char_ord"
    "HOL-Library.List_Lexorder"
    "HOL-Library.Signed_Division"
begin

section \<open>JavaScript values used by the loader\<close>

text \<open>
  The loader and the simulator are TypeScript. Numbers that are array lengths, indices,
  grid coordinates and keyframes are integers and are modelled as \<^typ>\<open>int\<close>; an object
  \<^verbatim>\<open>{x, y}\<close> is the pair \<open>(x, y)\<close> and an object \<^verbatim>\<open>{width, height}\<close> the pair
  \<open>(width, height)\<close>. A field whose source name is a HOL constant, a common variable
  name or the name of a field of another object carries the name of its owner as a prefix.
\<close>

text \<open>\<^verbatim>\<open>String.prototype.startsWith\<close>: the second string is a prefix of the first.\<close>

fun startsWith :: "string \<Rightarrow> string \<Rightarrow> bool" where
  "startsWith s [] = True"
| "startsWith [] (p # ps) = False"
| "startsWith (c # cs) (p # ps) = (c = p \<and> startsWith cs ps)"

text \<open>
  \<^verbatim>\<open>Number.prototype.toString\<close> on an integer: its decimal digits, with a leading minus
  sign when it is negative.
\<close>

definition digitChar :: "nat \<Rightarrow> char" where
  "digitChar d = char_of (48 + d)"

function natToString :: "nat \<Rightarrow> string" where
  "natToString n = (if n < 10 then [digitChar n] else natToString (n div 10) @ [digitChar (n mod 10)])"
  by pat_completeness auto
termination
  by (relation "measure id") auto

declare natToString.simps [simp del]

definition numberToString :: "int \<Rightarrow> string" where
  "numberToString i = (if i < 0 then CHR ''-'' # natToString (nat (- i)) else natToString (nat i))"

text \<open>
  \<^verbatim>\<open>Array.prototype.indexOf\<close>: the first index holding the value, \<open>-1\<close> when there is none.
\<close>

fun indexOfFrom :: "int \<Rightarrow> 'a list \<Rightarrow> 'a \<Rightarrow> int" where
  "indexOfFrom i [] v = - 1"
| "indexOfFrom i (x # xs) v = (if x = v then i else indexOfFrom (i + 1) xs v)"

definition indexOf :: "'a list \<Rightarrow> 'a \<Rightarrow> int" where
  "indexOf xs v = indexOfFrom 0 xs v"

text \<open>
  \<^verbatim>\<open>Array.prototype.sort\<close> called with no comparator orders the elements by their string
  conversions, compared code unit by code unit, and is stable.
\<close>

definition defaultSort :: "int list \<Rightarrow> int list" where
  "defaultSort xs = sort_key numberToString xs"

section \<open>Loader\<close>

subsection \<open>Runtime tree and links\<close>

datatype RuntimeLink = RuntimeLink (link_a: string) (link_b: string)

datatype RuntimeSubsystem =
  RuntimeSubsystem
    (canonicalId: string)
    (position: "int \<times> int")
    (ss_size: "int \<times> int")
    (ports: "(int \<times> int) list")
    (systems: "RuntimeSubsystem list")

subsection \<open>Sizes and ports from the number of links (computeSizes)\<close>

text \<open>
  The filter of \<^verbatim>\<open>computeSizes\<close>: the links one of whose endpoints starts with the
  canonical id of the subsystem.
\<close>

definition linksCount :: "RuntimeLink list \<Rightarrow> string \<Rightarrow> int" where
  "linksCount links cid =
     int (length (filter (\<lambda>link. startsWith (link_a link) cid \<or> startsWith (link_b link) cid) links))"

text \<open>
  The loop \<^verbatim>\<open>for (x = position.x + 1; x < position.x + size.width; x += 2)\<close>, which
  pushes a port above and a port below the box at every step.
\<close>

function topBottomPorts :: "int \<Rightarrow> int \<Rightarrow> int \<Rightarrow> int \<Rightarrow> (int \<times> int) list" where
  "topBottomPorts x limit y height =
     (if x < limit then [(x, y - 1), (x, y + height)] @ topBottomPorts (x + 2) limit y height
      else [])"
  by pat_completeness auto
termination
  by (relation "measure (\<lambda>(x, limit, y, height). nat (limit - x))") auto

declare topBottomPorts.simps [simp del]

text \<open>The body of the loop over \<^verbatim>\<open>system.systems\<close>, before the recursive call.\<close>

definition sizeAndPorts :: "RuntimeLink list \<Rightarrow> string \<Rightarrow> int \<times> int \<Rightarrow> (int \<times> int) \<times> (int \<times> int) list" where
  "sizeAndPorts links cid pos =
     (let n = linksCount links cid; x = fst pos; y = snd pos in
      if n \<le> 4 then
        ((3, 3), [(x + 1, y - 1), (x + 3, y + 1), (x + 1, y + 3), (x - 1, y + 1)])
      else
        (let width = 3 + ((n - 4) smod 2); height = 3 in
         ((width, height),
          [(x - 1, y + 1), (x + width, y + 1)] @ topBottomPorts (x + 1) (x + width) y height)))"

fun computeSizes :: "RuntimeSubsystem list \<Rightarrow> RuntimeLink list \<Rightarrow> RuntimeSubsystem list" where
  "computeSizes [] links = []"
| "computeSizes (RuntimeSubsystem cid pos sz ps children # rest) links =
     (let (sz', ps') = sizeAndPorts links cid pos in
      RuntimeSubsystem cid pos sz' ps' (computeSizes children links) # computeSizes rest links)"

text \<open>Every subsystem of a forest, parents before children.\<close>

fun allSubsystems :: "RuntimeSubsystem list \<Rightarrow> RuntimeSubsystem list" where
  "allSubsystems [] = []"
| "allSubsystems (RuntimeSubsystem cid pos sz ps children # rest) =
     RuntimeSubsystem cid pos sz ps children # allSubsystems children @ allSubsystems rest"

subsection \<open>Keyframe normalisation (enhanceFlows)\<close>

datatype FlowStep = FlowStep (keyframe: int) (step_from: string) (step_to: string)

text \<open>
  \<^verbatim>\<open>uniqueKeyframes\<close> is a \<^verbatim>\<open>Set\<close> filled step by step; \<^verbatim>\<open>Array.from\<close> lists it in
  insertion order.
\<close>

definition setAdd :: "int list \<Rightarrow> int \<Rightarrow> int list" where
  "setAdd s k = (if k \<in> set s then s else s @ [k])"

definition uniqueKeyframes :: "FlowStep list \<Rightarrow> int list" where
  "uniqueKeyframes steps = foldl setAdd [] (map keyframe steps)"

definition sortedKeyframes :: "FlowStep list \<Rightarrow> int list" where
  "sortedKeyframes steps = defaultSort (uniqueKeyframes steps)"

text \<open>
  The second loop over the steps of a flow rewrites \<^verbatim>\<open>step.keyframe\<close>; the endpoints
  and links it also resolves do not touch the keyframe and are left as they are here.
\<close>

definition normalizeKeyframes :: "FlowStep list \<Rightarrow> FlowStep list" where
  "normalizeKeyframes steps =
     (let keyframes = sortedKeyframes steps in
      map (\<lambda>step. FlowStep (indexOf keyframes (keyframe step)) (step_from step) (step_to step)) steps)"

text \<open>
  The layout scenario of the specification: a system \<open>foo\<close> at \<open>(1, 1)\<close> that five links
  name, beside a system \<open>bar\<close>.
\<close>

definition fooForest :: "RuntimeSubsystem list" where
  "fooForest = [RuntimeSubsystem ''foo'' (1, 1) (0, 0) [] [],
                RuntimeSubsystem ''bar'' (10, 1) (0, 0) [] []]"

definition fooLinks :: "RuntimeLink list" where
  "fooLinks = [RuntimeLink ''foo'' ''a'', RuntimeLink ''foo'' ''b'', RuntimeLink ''c'' ''foo'',
               RuntimeLink ''foo'' ''d'', RuntimeLink ''bar'' ''foo'']"

section \<open>Path finder\<close>

subsection \<open>Numbers and outcomes\<close>

text \<open>
  Weights and the scores \<open>f\<close>, \<open>g\<close> and \<open>h\<close> of a node are JavaScript numbers, and a
  weight can be \<^verbatim>\<open>Infinity\<close>. They are modelled as the reals extended by the two
  infinities and \<^verbatim>\<open>NaN\<close>, with the sums, products and comparisons of IEEE 754 on
  them; rounding is not modelled. Every weight the simulator writes is 1, 2 or
  \<^verbatim>\<open>Infinity\<close> and the default penalty is 1, so every score of its searches is a small
  integer, which a double holds exactly.
\<close>

datatype number = Num real | PosInfinity | NegInfinity | NaN

fun num_add :: "number \<Rightarrow> number \<Rightarrow> number" where
  "num_add NaN b = NaN"
| "num_add a NaN = NaN"
| "num_add (Num a) (Num b) = Num (a + b)"
| "num_add PosInfinity NegInfinity = NaN"
| "num_add NegInfinity PosInfinity = NaN"
| "num_add PosInfinity b = PosInfinity"
| "num_add a PosInfinity = PosInfinity"
| "num_add NegInfinity b = NegInfinity"
| "num_add a NegInfinity = NegInfinity"

fun num_mul :: "number \<Rightarrow> number \<Rightarrow> number" where
  "num_mul NaN b = NaN"
| "num_mul a NaN = NaN"
| "num_mul (Num a) (Num b) = Num (a * b)"
| "num_mul (Num a) PosInfinity = (if a = 0 then NaN else if 0 < a then PosInfinity else NegInfinity)"
| "num_mul (Num a) NegInfinity = (if a = 0 then NaN else if 0 < a then NegInfinity else PosInfinity)"
| "num_mul PosInfinity (Num b) = (if b = 0 then NaN else if 0 < b then PosInfinity else NegInfinity)"
| "num_mul NegInfinity (Num b) = (if b = 0 then NaN else if 0 < b then NegInfinity else PosInfinity)"
| "num_mul PosInfinity PosInfinity = PosInfinity"
| "num_mul NegInfinity NegInfinity = PosInfinity"
| "num_mul PosInfinity NegInfinity = NegInfinity"
| "num_mul NegInfinity PosInfinity = NegInfinity"

fun num_less :: "number \<Rightarrow> number \<Rightarrow> bool" where
  "num_less NaN b = False"
| "num_less a NaN = False"
| "num_less (Num a) (Num b) = (a < b)"
| "num_less (Num a) PosInfinity = True"
| "num_less (Num a) NegInfinity = False"
| "num_less PosInfinity b = False"
| "num_less NegInfinity (Num b) = True"
| "num_less NegInfinity PosInfinity = True"
| "num_less NegInfinity NegInfinity = False"

text \<open>The numbers that count as false in \<^verbatim>\<open>a || b\<close> are zero and \<^verbatim>\<open>NaN\<close>.\<close>

fun truthy :: "number \<Rightarrow> bool" where
  "truthy (Num a) = (a \<noteq> 0)"
| "truthy NaN = False"
| "truthy PosInfinity = True"
| "truthy NegInfinity = True"

text \<open>
  A call returns a value, throws, or does not return. Reading a property of
  \<^verbatim>\<open>undefined\<close> throws a \<^verbatim>\<open>TypeError\<close>.
\<close>

datatype error = TypeError

datatype 'a outcome = Returns 'a | Throws error | Diverges

subsection \<open>The grid\<close>

datatype NodeState = NotVisited | WillVisit | Visited

text \<open>
  A node is an object that the grid holds at \<^verbatim>\<open>nodes[x][y]\<close>; its fields \<^verbatim>\<open>x\<close> and
  \<^verbatim>\<open>y\<close> are written once by the constructor and are that index. The model names a node
  by the pair \<open>(x, y)\<close>, keeps the other fields in a record, and lets \<open>nodes\<close> map the
  pair to the record. Only the pairs inside the grid are nodes: every read of \<open>nodes\<close>
  below is behind \<open>isInside\<close>, as every read of the array is in the source, or is the
  one of \<open>getNodeAt\<close>.
\<close>

record Node =
  weight :: number
  parent :: "(int \<times> int) option"
  node_f :: number
  node_g :: number
  node_h :: number
  state :: NodeState

record Grid =
  width :: int
  height :: int
  nodes :: "int \<times> int \<Rightarrow> Node"

definition newGrid :: "int \<Rightarrow> int \<Rightarrow> number \<Rightarrow> Grid" where
  "newGrid w h wt =
     \<lparr> width = w, height = h,
       nodes = (\<lambda>c. \<lparr> weight = wt, parent = None, node_f = Num 0, node_g = Num 0,
                      node_h = Num 0, state = NotVisited \<rparr>) \<rparr>"

definition isInside :: "Grid \<Rightarrow> int \<Rightarrow> int \<Rightarrow> bool" where
  "isInside grid x y = (x \<ge> 0 \<and> x < width grid \<and> y \<ge> 0 \<and> y < height grid)"

definition isWalkableAt :: "Grid \<Rightarrow> int \<Rightarrow> int \<Rightarrow> bool" where
  "isWalkableAt grid x y = (isInside grid x y \<and> weight (nodes grid (x, y)) \<noteq> PosInfinity)"

text \<open>
  \<^verbatim>\<open>getNodeAt\<close> is \<^verbatim>\<open>this.nodes[x]![y]!\<close>: it throws when there is no column \<open>x\<close> and
  returns \<^verbatim>\<open>undefined\<close> when the column has no row \<open>y\<close>.
\<close>

definition getNodeAt :: "Grid \<Rightarrow> int \<Rightarrow> int \<Rightarrow> (int \<times> int) option outcome" where
  "getNodeAt grid x y =
     (if 0 \<le> x \<and> x < width grid
      then Returns (if 0 \<le> y \<and> y < height grid then Some (x, y) else None)
      else Throws TypeError)"

definition getWeightAt :: "Grid \<Rightarrow> int \<Rightarrow> int \<Rightarrow> number outcome" where
  "getWeightAt grid x y =
     (if isInside grid x y then Returns (weight (nodes grid (x, y))) else Throws TypeError)"

definition setWeightAt :: "Grid \<Rightarrow> int \<Rightarrow> int \<Rightarrow> number \<Rightarrow> Grid outcome" where
  "setWeightAt grid x y wt =
     (if isInside grid x y
      then Returns (grid\<lparr> nodes := (nodes grid)((x, y) := (nodes grid (x, y))\<lparr> weight := wt \<rparr>) \<rparr>)
      else Throws TypeError)"

definition getNeighbors :: "Grid \<Rightarrow> int \<times> int \<Rightarrow> (int \<times> int) list" where
  "getNeighbors grid node =
     (let x = fst node; y = snd node in
      (if isWalkableAt grid x (y - 1) then [(x, y - 1)] else []) @
      (if isWalkableAt grid (x + 1) y then [(x + 1, y)] else []) @
      (if isWalkableAt grid x (y + 1) then [(x, y + 1)] else []) @
      (if isWalkableAt grid (x - 1) y then [(x - 1, y)] else []))"

definition reset :: "Grid \<Rightarrow> Grid" where
  "reset grid =
     grid\<lparr> nodes := (\<lambda>c. if isInside grid (fst c) (snd c)
                          then (nodes grid c)\<lparr> parent := None, node_f := Num 0, node_g := Num 0,
                                               node_h := Num 0, state := NotVisited \<rparr>
                          else nodes grid c) \<rparr>"

subsection \<open>The search\<close>

record FinderOptions =
  opt_weight :: "number option"
  opt_turnPenalty :: "number option"

record PathFinder =
  pf_weight :: number
  turnPenalty :: number

definition newPathFinder :: "FinderOptions \<Rightarrow> PathFinder" where
  "newPathFinder options =
     \<lparr> pf_weight = (case opt_weight options of None \<Rightarrow> Num 1 | Some w \<Rightarrow> w),
       turnPenalty = (case opt_turnPenalty options of None \<Rightarrow> Num 1 | Some p \<Rightarrow> p) \<rparr>"

text \<open>
  The tentative score \<^verbatim>\<open>nextG\<close> of a neighbour of the node that was popped: the lines
  from \<^verbatim>\<open>let nextG = node.g + ...\<close> to \<^verbatim>\<open>nextG += this.turnPenalty\<close>.
\<close>

text \<open>\<^verbatim>\<open>Math.SQRT2\<close>, the length of a diagonal step.\<close>

definition SQRT2 :: real where
  "SQRT2 = sqrt 2"

definition nextG :: "PathFinder \<Rightarrow> Grid \<Rightarrow> int \<times> int \<Rightarrow> int \<times> int \<Rightarrow> number" where
  "nextG finder grid node neighbor =
     (let x = fst neighbor; y = snd neighbor;
          g0 = num_add (node_g (nodes grid node))
                 (if x - fst node = 0 \<or> y - snd node = 0 then Num 1 else Num SQRT2);
          g1 = num_mul g0 (weight (nodes grid neighbor));
          lastDirection =
            (case parent (nodes grid node) of
               None \<Rightarrow> None
             | Some p \<Rightarrow> Some (fst node - fst p, snd node - snd p));
          hasTurned =
            (case lastDirection of
               None \<Rightarrow> False
             | Some d \<Rightarrow> fst d \<noteq> x - fst node \<or> snd d \<noteq> y - snd node)
      in if hasTurned then num_add g1 (turnPenalty finder) else g1)"

text \<open>
  The open list is a binary heap of nodes ordered by \<open>f\<close>, from a library that is not part
  of the repository. The model keeps the nodes of the heap in a list; \<open>push\<close> appends,
  \<open>updateItem\<close> leaves the list as it is, and \<open>pop\<close> takes out a node of least \<open>f\<close>, the
  first one when several have it. The order in which the library pops nodes of equal \<open>f\<close>
  is not modelled.
\<close>

fun leastF :: "Grid \<Rightarrow> int \<times> int \<Rightarrow> (int \<times> int) list \<Rightarrow> int \<times> int" where
  "leastF grid best [] = best"
| "leastF grid best (c # cs) =
     leastF grid (if num_less (node_f (nodes grid c)) (node_f (nodes grid best)) then c else best) cs"

definition heapTop :: "Grid \<Rightarrow> (int \<times> int) list \<Rightarrow> int \<times> int" where
  "heapTop grid openList = leastF grid (hd openList) (tl openList)"

text \<open>The body of the loop over the neighbours.\<close>

definition relax ::
  "PathFinder \<Rightarrow> int \<Rightarrow> int \<Rightarrow> int \<times> int \<Rightarrow> int \<times> int \<Rightarrow> Grid \<times> (int \<times> int) list
     \<Rightarrow> Grid \<times> (int \<times> int) list" where
  "relax finder endX endY node neighbor st =
     (let grid = fst st; openList = snd st; nb = nodes grid neighbor in
      if state nb = Visited then st
      else
        (let ng = nextG finder grid node neighbor in
         if state nb \<noteq> WillVisit \<or> num_less ng (node_g nb) then
           (let nh = (if truthy (node_h nb) then node_h nb
                      else num_mul (pf_weight finder)
                             (Num (of_int (\<bar>fst neighbor - endX\<bar> + \<bar>snd neighbor - endY\<bar>))));
                nb1 = nb\<lparr> node_g := ng, node_h := nh, node_f := num_add ng nh, parent := Some node \<rparr>
            in if state nb \<noteq> WillVisit
               then (grid\<lparr> nodes := (nodes grid)(neighbor := nb1\<lparr> state := WillVisit \<rparr>) \<rparr>,
                     openList @ [neighbor])
               else (grid\<lparr> nodes := (nodes grid)(neighbor := nb1) \<rparr>, openList))
         else st))"

definition notVisitedCount :: "Grid \<Rightarrow> nat" where
  "notVisitedCount grid =
     card {c. isInside grid (fst c) (snd c) \<and> state (nodes grid c) = NotVisited}"

definition markVisited :: "Grid \<Rightarrow> int \<times> int \<Rightarrow> Grid" where
  "markVisited grid node = grid\<lparr> nodes := (nodes grid)(node := (nodes grid node)\<lparr> state := Visited \<rparr>) \<rparr>"

text \<open>
  One turn of the \<^verbatim>\<open>while\<close> loop that does not end the search: the node of least \<open>f\<close>
  leaves the open list and is marked visited, and its neighbours are relaxed in the
  order of \<open>getNeighbors\<close>.
\<close>

definition expand ::
  "PathFinder \<Rightarrow> int \<Rightarrow> int \<Rightarrow> Grid \<Rightarrow> (int \<times> int) list \<Rightarrow> Grid \<times> (int \<times> int) list" where
  "expand finder endX endY grid openList =
     (let node = heapTop grid openList;
          grid1 = markVisited grid node
      in fold (relax finder endX endY node) (getNeighbors grid1 node) (grid1, remove1 node openList))"

text \<open>
  The loop ends because a node is pushed only when it is \<open>NotVisited\<close>, and is
  \<open>WillVisit\<close> from then on: twice the number of nodes not yet visited plus the length of
  the open list decreases at every turn.
\<close>

definition searchMeasure :: "Grid \<Rightarrow> (int \<times> int) list \<Rightarrow> nat" where
  "searchMeasure grid openList = 2 * notVisitedCount grid + length openList"

lemma finite_inside: "finite {c. isInside grid (fst c) (snd c)}"
proof -
  have "{c. isInside grid (fst c) (snd c)} \<subseteq> {0 ..< width grid} \<times> {0 ..< height grid}"
    by (auto simp: isInside_def)
  then show ?thesis by (rule finite_subset) simp
qed

lemma finite_notVisited:
  "finite {c. isInside grid (fst c) (snd c) \<and> state (nodes grid c) = NotVisited}"
  by (rule finite_subset [OF _ finite_inside [of grid]]) auto

lemma leastF_member: "leastF grid best cs \<in> insert best (set cs)"
  by (induction cs arbitrary: best) (auto split: if_splits)

lemma heapTop_member: "openList \<noteq> [] \<Longrightarrow> heapTop grid openList \<in> set openList"
  using leastF_member [of grid "hd openList" "tl openList"]
  by (cases openList) (auto simp: heapTop_def)

lemma isInside_nodes_update [simp]: "isInside (grid\<lparr> nodes := n \<rparr>) x y = isInside grid x y"
  by (simp add: isInside_def)

lemma isInside_markVisited [simp]: "isInside (markVisited grid node) x y = isInside grid x y"
  by (simp add: markVisited_def)

lemma notVisitedCount_markVisited: "notVisitedCount (markVisited grid node) \<le> notVisitedCount grid"
  unfolding notVisitedCount_def
  by (rule card_mono [OF finite_notVisited]) (auto simp: markVisited_def split: if_splits)

lemma relax_dims:
  "relax finder endX endY node neighbor (grid, openList) = (grid', openList') \<Longrightarrow>
     width grid' = width grid \<and> height grid' = height grid"
  by (auto simp: relax_def Let_def split: if_splits)

lemma relax_measure:
  assumes "relax finder endX endY node neighbor (grid, openList) = (grid', openList')"
    and "isInside grid (fst neighbor) (snd neighbor)"
  shows "searchMeasure grid' openList' \<le> searchMeasure grid openList"
proof (cases "state (nodes grid neighbor) = NotVisited")
  case True
  let ?S = "{c. isInside grid (fst c) (snd c) \<and> state (nodes grid c) = NotVisited}"
  let ?S' = "{c. isInside grid' (fst c) (snd c) \<and> state (nodes grid' c) = NotVisited}"
  from assms(1) True have g': "state (nodes grid' neighbor) = WillVisit"
    "\<And>c. c \<noteq> neighbor \<Longrightarrow> nodes grid' c = nodes grid c"
    "openList' = openList @ [neighbor]"
    by (auto simp: relax_def Let_def split: if_splits)
  have ins: "\<And>x y. isInside grid' x y = isInside grid x y"
    using relax_dims [OF assms(1)] by (simp add: isInside_def)
  have "?S' \<subseteq> ?S - {neighbor}"
  proof
    fix c assume c: "c \<in> ?S'"
    then have "c \<noteq> neighbor" using g'(1) by auto
    then show "c \<in> ?S - {neighbor}" using c g'(2) [of c] ins by simp
  qed
  then have "card ?S' \<le> card (?S - {neighbor})"
    by (rule card_mono [OF finite_Diff [OF finite_notVisited]])
  moreover have "neighbor \<in> ?S" using True assms(2) by simp
  then have "card (?S - {neighbor}) < card ?S"
    by (rule card_Diff1_less [OF finite_notVisited])
  ultimately show ?thesis using g'(3) by (simp add: searchMeasure_def notVisitedCount_def)
next
  case False
  from assms(1) False have st: "\<And>c. state (nodes grid' c) = state (nodes grid c)"
    and ol: "openList' = openList"
    by (auto simp: relax_def Let_def split: if_splits NodeState.splits, (cases "state (nodes grid neighbor)"; simp)+)
  have ins: "\<And>x y. isInside grid' x y = isInside grid x y"
    using relax_dims [OF assms(1)] by (simp add: isInside_def)
  show ?thesis using st ol ins by (simp add: searchMeasure_def notVisitedCount_def)
qed

lemma fold_relax_measure:
  assumes "fold (relax finder endX endY node) nbs (grid, openList) = (grid', openList')"
    and "\<forall>nb \<in> set nbs. isInside grid (fst nb) (snd nb)"
  shows "searchMeasure grid' openList' \<le> searchMeasure grid openList \<and>
         width grid' = width grid \<and> height grid' = height grid"
  using assms
proof (induction nbs arbitrary: grid openList)
  case Nil
  then show ?case by simp
next
  case (Cons nb nbs)
  obtain g1 o1 where r: "relax finder endX endY node nb (grid, openList) = (g1, o1)"
    by (cases "relax finder endX endY node nb (grid, openList)")
  have d: "width g1 = width grid \<and> height g1 = height grid" by (rule relax_dims [OF r])
  have m: "searchMeasure g1 o1 \<le> searchMeasure grid openList"
    using relax_measure [OF r] Cons.prems(2) by simp
  have "\<forall>n \<in> set nbs. isInside g1 (fst n) (snd n)"
    using Cons.prems(2) d by (simp add: isInside_def)
  moreover have "fold (relax finder endX endY node) nbs (g1, o1) = (grid', openList')"
    using Cons.prems(1) r by simp
  ultimately have "searchMeasure grid' openList' \<le> searchMeasure g1 o1 \<and>
         width grid' = width g1 \<and> height grid' = height g1"
    by (rule Cons.IH [rotated])
  then show ?case using m d by simp
qed

lemma getNeighbors_inside: "nb \<in> set (getNeighbors grid node) \<Longrightarrow> isInside grid (fst nb) (snd nb)"
  by (auto simp: getNeighbors_def Let_def isWalkableAt_def split: if_splits)

lemma expand_measure:
  assumes "openList \<noteq> []"
  shows "searchMeasure (fst (expand finder endX endY grid openList))
           (snd (expand finder endX endY grid openList)) < searchMeasure grid openList"
proof -
  let ?node = "heapTop grid openList"
  let ?g1 = "markVisited grid ?node"
  obtain g2 o2 where e: "expand finder endX endY grid openList = (g2, o2)"
    by (cases "expand finder endX endY grid openList")
  then have f: "fold (relax finder endX endY ?node) (getNeighbors ?g1 ?node) (?g1, remove1 ?node openList) = (g2, o2)"
    by (simp add: expand_def Let_def)
  have "searchMeasure g2 o2 \<le> searchMeasure ?g1 (remove1 ?node openList)"
    using fold_relax_measure [OF f] getNeighbors_inside [of _ ?g1 ?node] by blast
  also have "\<dots> < searchMeasure grid openList"
  proof -
    have "length (remove1 ?node openList) = length openList - 1"
      using heapTop_member [OF assms, of grid] by (simp add: length_remove1)
    moreover have "1 \<le> length openList" using assms by (cases openList) simp_all
    ultimately show ?thesis
      using notVisitedCount_markVisited [of grid ?node] unfolding searchMeasure_def by linarith
  qed
  finally show ?thesis by (simp add: e)
qed

function search ::
  "PathFinder \<Rightarrow> int \<Rightarrow> int \<Rightarrow> (int \<times> int) option \<Rightarrow> Grid \<Rightarrow> (int \<times> int) list
     \<Rightarrow> Grid \<times> (int \<times> int) option" where
  "search finder endX endY endNode grid openList =
     (if openList = [] then (grid, None)
      else if Some (heapTop grid openList) = endNode
        then (markVisited grid (heapTop grid openList), Some (heapTop grid openList))
      else search finder endX endY endNode
             (fst (expand finder endX endY grid openList))
             (snd (expand finder endX endY grid openList)))"
  by pat_completeness auto
termination
proof (relation "measure (\<lambda>(finder, endX, endY, endNode, grid, openList). searchMeasure grid openList)")
  show "wf (measure (\<lambda>(finder, endX, endY, endNode, grid, openList). searchMeasure grid openList))"
    by simp
next
  fix finder :: PathFinder and endX endY :: int and endNode :: "(int \<times> int) option"
    and grid :: Grid and openList :: "(int \<times> int) list"
  assume "openList \<noteq> []"
  then show "((finder, endX, endY, endNode, fst (expand finder endX endY grid openList),
               snd (expand finder endX endY grid openList)),
              (finder, endX, endY, endNode, grid, openList))
        \<in> measure (\<lambda>(finder, endX, endY, endNode, grid, openList). searchMeasure grid openList)"
    using expand_measure [of openList finder endX endY grid] by (simp add: case_prod_beta)
qed

declare search.simps [simp del]

text \<open>
  The loop \<^verbatim>\<open>while (pathNode.parent)\<close> that collects the path from the end node back
  along the parents. Nothing in it bounds the number of turns.
\<close>

partial_function (option) backtrace ::
  "Grid \<Rightarrow> int \<times> int \<Rightarrow> (int \<times> int) list \<Rightarrow> (int \<times> int) list option" where
  "backtrace grid pathNode path =
     (case parent (nodes grid pathNode) of
        None \<Rightarrow> Some path
      | Some p \<Rightarrow> backtrace grid p (path @ [p]))"

declare backtrace.simps [code]

definition startSearch :: "Grid \<Rightarrow> int \<times> int \<Rightarrow> Grid" where
  "startSearch grid startNode =
     grid\<lparr> nodes := (nodes grid)(startNode :=
       (nodes grid startNode)\<lparr> node_f := Num 0, node_g := Num 0, state := WillVisit \<rparr>) \<rparr>"

definition findPath ::
  "PathFinder \<Rightarrow> int \<Rightarrow> int \<Rightarrow> int \<Rightarrow> int \<Rightarrow> Grid \<Rightarrow> (int \<times> int) list outcome" where
  "findPath finder startX startY endX endY grid =
     (case getNodeAt grid startX startY of
        Throws e \<Rightarrow> Throws e
      | Diverges \<Rightarrow> Diverges
      | Returns startNode \<Rightarrow>
     (case getNodeAt grid endX endY of
        Throws e \<Rightarrow> Throws e
      | Diverges \<Rightarrow> Diverges
      | Returns endNode \<Rightarrow>
     (case startNode of
        None \<Rightarrow> Throws TypeError
      | Some s \<Rightarrow>
     (case search finder endX endY endNode (startSearch grid s) [s] of
        (grid1, None) \<Rightarrow> Returns []
      | (grid1, Some node) \<Rightarrow>
          (case backtrace grid1 node [node] of
             None \<Rightarrow> Diverges
           | Some path \<Rightarrow> Returns (rev path))))))"

subsection \<open>Notions used to state the properties of the search\<close>

text \<open>A step between two cells that differ by exactly 1 in exactly one coordinate.\<close>

definition cardinalStep :: "int \<times> int \<Rightarrow> int \<times> int \<Rightarrow> bool" where
  "cardinalStep a b =
     ((fst a = fst b \<and> \<bar>snd a - snd b\<bar> = 1) \<or> (snd a = snd b \<and> \<bar>fst a - fst b\<bar> = 1))"

fun fourConnected :: "(int \<times> int) list \<Rightarrow> bool" where
  "fourConnected [] = True"
| "fourConnected [a] = True"
| "fourConnected (a # b # cs) = (cardinalStep a b \<and> fourConnected (b # cs))"

text \<open>
  A cell is reachable from a start cell when cardinal steps lead from the start to it
  through walkable cells; the start itself need not be walkable, as the search never
  asks for its weight.
\<close>

inductive reachable :: "Grid \<Rightarrow> int \<times> int \<Rightarrow> int \<times> int \<Rightarrow> bool" for grid s where
  reachable_start: "reachable grid s s"
| reachable_step:
    "reachable grid s c \<Longrightarrow> cardinalStep c d \<Longrightarrow> isWalkableAt grid (fst d) (snd d)
       \<Longrightarrow> reachable grid s d"

text \<open>
  The parents of a grid lead from a node back to the start along \<open>cells\<close>, which lists
  the node first and the start last.
\<close>

inductive trail :: "Grid \<Rightarrow> int \<times> int \<Rightarrow> int \<times> int \<Rightarrow> (int \<times> int) list \<Rightarrow> bool" for grid s where
  trail_start: "parent (nodes grid s) = None \<Longrightarrow> trail grid s s [s]"
| trail_step:
    "parent (nodes grid c) = Some p \<Longrightarrow> trail grid s p cells \<Longrightarrow> cardinalStep p c
       \<Longrightarrow> isWalkableAt grid (fst c) (snd c) \<Longrightarrow> trail grid s c (c # cells)"

text \<open>
  The step from a node to a neighbour turns when the node has a parent and the step from
  the parent to the node is another one: \<^verbatim>\<open>hasTurned\<close> in the source.
\<close>

definition stepTurns :: "Grid \<Rightarrow> int \<times> int \<Rightarrow> int \<times> int \<Rightarrow> bool" where
  "stepTurns grid node neighbor =
     (\<exists>q. parent (nodes grid node) = Some q \<and>
          (fst node - fst q, snd node - snd q) \<noteq> (fst neighbor - fst node, snd neighbor - snd node))"

text \<open>
  Grids for the examples: a corridor whose last cell has weight 2, a row of three cells
  with a wall in the middle, and a square of four cells with a wall at \<open>(1, 0)\<close>. In
  none of them does the open list ever hold two nodes.
\<close>

definition setWeight :: "Grid \<Rightarrow> int \<times> int \<Rightarrow> number \<Rightarrow> Grid" where
  "setWeight grid c wt = grid\<lparr> nodes := (nodes grid)(c := (nodes grid c)\<lparr> weight := wt \<rparr>) \<rparr>"

definition corridor :: Grid where
  "corridor = setWeight (newGrid 1 3 (Num 1)) (0, 2) (Num 2)"

definition walled :: Grid where
  "walled = setWeight (newGrid 3 1 (Num 1)) (1, 0) PosInfinity"

definition corner :: Grid where
  "corner = setWeight (newGrid 2 2 (Num 1)) (1, 0) PosInfinity"

definition defaultFinder :: PathFinder where
  "defaultFinder = newPathFinder \<lparr> opt_weight = None, opt_turnPenalty = None \<rparr>"

text \<open>
  The corridor after the first turn of the loop in a search from \<open>(0, 0)\<close> to
  \<open>(0, 2)\<close>: the start is visited and \<open>(0, 1)\<close> is in the open list with \<open>g = 1\<close>.
\<close>

definition corridorAfterStart :: Grid where
  "corridorAfterStart =
     fst (expand defaultFinder 0 2 (startSearch (reset corridor) (0, 0)) [(0, 0)])"

subsection \<open>The invariant of the search loop\<close>

text \<open>
  At the head of the loop, on a grid that was reset before the search: the start has no
  parent; every visited node has a trail of visited nodes back to the start; every node of
  the open list is the start, or is visited, or has a visited parent one cardinal step
  away; and the start is visited unless the open list still holds just the start.
  \<open>expandInv\<close> is the same between the pop and the end of the loop over the neighbours.
\<close>

definition visitedTrail :: "Grid \<Rightarrow> int \<times> int \<Rightarrow> int \<times> int \<Rightarrow> bool" where
  "visitedTrail grid s c =
     (\<exists>cells. trail grid s c cells \<and> (\<forall>x \<in> set cells. state (nodes grid x) = Visited))"

definition openOk :: "Grid \<Rightarrow> int \<times> int \<Rightarrow> int \<times> int \<Rightarrow> bool" where
  "openOk grid s c =
     (isInside grid (fst c) (snd c) \<and>
      (c = s \<or> state (nodes grid c) = Visited \<or>
       (\<exists>p. parent (nodes grid c) = Some p \<and> state (nodes grid p) = Visited \<and>
            isInside grid (fst p) (snd p) \<and> cardinalStep p c \<and>
            isWalkableAt grid (fst c) (snd c))))"

definition closedOk :: "Grid \<Rightarrow> int \<times> int \<Rightarrow> bool" where
  "closedOk grid s =
     (isInside grid (fst s) (snd s) \<and> parent (nodes grid s) = None \<and>
      (\<forall>c. isInside grid (fst c) (snd c) \<and> state (nodes grid c) = Visited \<longrightarrow> visitedTrail grid s c))"

definition searchInv :: "Grid \<Rightarrow> int \<times> int \<Rightarrow> (int \<times> int) list \<Rightarrow> bool" where
  "searchInv grid s openList =
     (closedOk grid s \<and> (state (nodes grid s) = Visited \<or> openList = [s]) \<and>
      (\<forall>c \<in> set openList. openOk grid s c))"

definition expandInv :: "Grid \<Rightarrow> int \<times> int \<Rightarrow> int \<times> int \<Rightarrow> (int \<times> int) list \<Rightarrow> bool" where
  "expandInv grid s node openList =
     (closedOk grid s \<and> state (nodes grid s) = Visited \<and>
      state (nodes grid node) = Visited \<and> isInside grid (fst node) (snd node) \<and>
      (\<forall>c \<in> set openList. openOk grid s c))"

section \<open>Simulator\<close>

subsection \<open>Objects of the tile grid\<close>

text \<open>
  A simulator object refers to its runtime system or link; the model keeps the id of the
  system and the link itself. The six interfaces that extend \<^verbatim>\<open>SimulatorObject\<close> are
  the constructors of one datatype and \<open>objType\<close> reads the \<^verbatim>\<open>type\<close> field.
\<close>

datatype SimulatorObjectType = System | Port | Link | SystemMargin | SystemTitle | SystemTitlePadding

datatype SimulatorLinkDirectionType =
  Horizontal | Vertical | BottomToRight | BottomToLeft | TopToRight | TopToLeft

datatype SimulatorSystemDirectionType =
  TopLeft | TopCenter | TopRight | CenterLeft | CenterCenter | CenterRight
  | BottomLeft | BottomCenter | BottomRight

datatype SimulatorObject =
  SimulatorSubsystem string SimulatorSystemDirectionType bool
  | SimulatorPort string
  | SimulatorLink SimulatorLinkDirectionType RuntimeLink
  | SimulatorSystemMargin string
  | SimulatorSystemTitle string bool string
  | SimulatorSystemTitlePadding string bool

fun objType :: "SimulatorObject \<Rightarrow> SimulatorObjectType" where
  "objType (SimulatorSubsystem s d bb) = System"
| "objType (SimulatorPort s) = Port"
| "objType (SimulatorLink d l) = Link"
| "objType (SimulatorSystemMargin s) = SystemMargin"
| "objType (SimulatorSystemTitle s bb chars) = SystemTitle"
| "objType (SimulatorSystemTitlePadding s bb) = SystemTitlePadding"

subsection \<open>Boundaries and grid systems\<close>

record SimulatorBoundaries =
  b_left :: int
  b_right :: int
  b_top :: int
  b_bottom :: int
  b_width :: int
  b_height :: int
  translateX :: int
  translateY :: int

record GridSystem =
  gs_id :: string
  x1 :: int
  x2 :: int
  y1 :: int
  y2 :: int
  worldX :: int
  worldY :: int
  gs_width :: int
  gs_height :: int
  gs_ports :: "(int \<times> int) list"
  gs_title :: "int \<times> int \<times> int \<times> int"
  hidden :: bool

text \<open>\<^verbatim>\<open>Number.MAX_SAFE_INTEGER\<close> is \<open>2\<^sup>5\<^sup>3 - 1\<close>.\<close>

definition MAX_SAFE_INTEGER :: int where
  "MAX_SAFE_INTEGER = 9007199254740991"

text \<open>
  \<^verbatim>\<open>computeBoundaries\<close> runs over \<^verbatim>\<open>Object.values(this.gridSystems)\<close>; the model
  takes that list of values. The loop carries \<open>left\<close>, \<open>right\<close>, \<open>top\<close> and \<open>bottom\<close>.
  The constant \<^verbatim>\<open>SystemMargin\<close> is imported from a module that is not among the sources
  and is the parameter \<open>systemMargin\<close>.
\<close>

fun boundariesLoop :: "int \<times> int \<times> int \<times> int \<Rightarrow> GridSystem list \<Rightarrow> int \<times> int \<times> int \<times> int" where
  "boundariesLoop acc [] = acc"
| "boundariesLoop (bLeft, bRight, bTop, bBottom) (obj # objs) =
     boundariesLoop
       (if worldX obj < bLeft then worldX obj else bLeft,
        if worldX obj + gs_width obj > bRight then worldX obj + gs_width obj else bRight,
        if worldY obj < bTop then worldY obj else bTop,
        if worldY obj + gs_height obj > bBottom then worldY obj + gs_height obj else bBottom)
       objs"

definition computeBoundaries :: "int \<Rightarrow> GridSystem list \<Rightarrow> SimulatorBoundaries" where
  "computeBoundaries systemMargin gridSystems =
     (case boundariesLoop (MAX_SAFE_INTEGER, 0, MAX_SAFE_INTEGER, 0) gridSystems of
        (left0, right0, top0, bottom0) \<Rightarrow>
          (let left1 = (if left0 > right0 then right0 else left0);
               top1 = (if top0 > bottom0 then bottom0 else top0);
               bLeft = left1 - systemMargin * 5;
               bRight = right0 + systemMargin * 5;
               bTop = top1 - systemMargin * 5;
               bBottom = bottom0 + systemMargin * 5
           in \<lparr> b_left = bLeft, b_right = bRight, b_top = bTop, b_bottom = bBottom,
                b_width = bRight - bLeft, b_height = bBottom - bTop,
                translateX = (if bLeft < 0 then \<bar>bLeft\<bar> else - bLeft),
                translateY = (if bTop < 0 then \<bar>bTop\<bar> else - bTop) \<rparr>))"

text \<open>
  \<^verbatim>\<open>computeSystemPositions\<close> writes the grid position of every grid system from its
  world position and the translation of the boundaries.
\<close>

definition computeSystemPositions :: "SimulatorBoundaries \<Rightarrow> GridSystem list \<Rightarrow> GridSystem list" where
  "computeSystemPositions boundaries gridSystems =
     map (\<lambda>obj.
       (let nx1 = worldX obj + translateX boundaries;
            nx2 = nx1 + gs_width obj - 1;
            ny1 = worldY obj + translateY boundaries;
            ny2 = ny1 + gs_height obj - 1
        in obj\<lparr> x1 := nx1, x2 := nx2, y1 := ny1, y2 := ny2 \<rparr>)) gridSystems"

subsection \<open>Reading the tile grid\<close>

text \<open>
  Reading an array at an index that it does not hold gives \<^verbatim>\<open>undefined\<close>, here
  \<open>None\<close>. The tile grid is an array of columns; \<^verbatim>\<open>compute\<close> allocates it with
  \<^verbatim>\<open>new Array(height)\<close> and fills the first \<^verbatim>\<open>width\<close> columns, so a column can be a
  hole, which reads as \<^verbatim>\<open>undefined\<close> too.
\<close>

definition arrayGet :: "'a list \<Rightarrow> int \<Rightarrow> 'a option" where
  "arrayGet xs i = (if 0 \<le> i \<and> i < int (length xs) then Some (xs ! nat i) else None)"

type_synonym TileGrid = "SimulatorObject list list option list"

text \<open>
  \<^verbatim>\<open>getObjectsAt\<close> is \<^verbatim>\<open>this.grid[gridX]?.[gridY] ?? []\<close>: the optional chaining
  stops at a column that is \<^verbatim>\<open>undefined\<close>, and \<^verbatim>\<open>??\<close> turns \<^verbatim>\<open>undefined\<close> into the
  empty list. No step of it reads a property of \<^verbatim>\<open>undefined\<close>, so it has no error value.
\<close>

definition getObjectsAt :: "TileGrid \<Rightarrow> SimulatorBoundaries \<Rightarrow> int \<Rightarrow> int \<Rightarrow> SimulatorObject list" where
  "getObjectsAt grid boundaries wX wY =
     (let gridX = wX + translateX boundaries;
          gridY = wY + translateY boundaries
      in case arrayGet grid gridX of
           None \<Rightarrow> []
         | Some None \<Rightarrow> []
         | Some (Some column) \<Rightarrow>
             (case arrayGet column gridY of None \<Rightarrow> [] | Some objects \<Rightarrow> objects))"

text \<open>Two grid systems as \<^verbatim>\<open>computeSystemSizes\<close> leaves them, one left of the origin.\<close>

definition twoSystems :: "GridSystem list" where
  "twoSystems =
     [\<lparr> gs_id = ''foo'', x1 = - 1, x2 = - 1, y1 = - 1, y2 = - 1, worldX = - 7, worldY = 2,
        gs_width = 3, gs_height = 3, gs_ports = [], gs_title = (- 1, - 1, - 1, - 1), hidden = False \<rparr>,
      \<lparr> gs_id = ''bar'', x1 = - 1, x2 = - 1, y1 = - 1, y2 = - 1, worldX = 4, worldY = - 3,
        gs_width = 4, gs_height = 3, gs_ports = [], gs_title = (- 1, - 1, - 1, - 1), hidden = False \<rparr>]"

subsection \<open>Routing the links (drawLinks)\<close>

text \<open>
  A call that can throw is followed by the rest of the function only when it returns.
\<close>

definition andThen :: "'a outcome \<Rightarrow> ('a \<Rightarrow> 'b outcome) \<Rightarrow> 'b outcome" where
  "andThen m k = (case m of Returns v \<Rightarrow> k v | Throws e \<Rightarrow> Throws e | Diverges \<Rightarrow> Diverges)"

text \<open>
  The simulator reads of a link its endpoints \<^verbatim>\<open>a\<close> and \<^verbatim>\<open>b\<close> and the runtime systems
  \<^verbatim>\<open>systemA\<close> and \<^verbatim>\<open>systemB\<close> that the loader resolved them to (\<^verbatim>\<open>undefined\<close> when an
  endpoint names no system). Of a runtime system it reads the \<^verbatim>\<open>id\<close>, which the root does
  not have, and the \<^verbatim>\<open>parent\<close>.
\<close>

datatype RuntimeRef = RuntimeRef (ref_id: "string option") (ref_parent: "RuntimeRef option")

datatype RoutedLink =
  RoutedLink (rl_link: RuntimeLink) (systemA: "RuntimeRef option") (systemB: "RuntimeRef option")

text \<open>
  The loop \<^verbatim>\<open>while (parent?.id) { allowedSystems.push(parent.id); parent = parent.parent; }\<close>:
  it stops at \<^verbatim>\<open>undefined\<close>, at a system without id, and at an id that is the empty string.
\<close>

fun parentIds :: "RuntimeRef option \<Rightarrow> string list" where
  "parentIds None = []"
| "parentIds (Some (RuntimeRef None p)) = []"
| "parentIds (Some (RuntimeRef (Some i) p)) = (if i = [] then [] else i # parentIds p)"

text \<open>
  \<^verbatim>\<open>this.gridSystems\<close> is a record keyed by the id of the system, and every grid system
  holds its key in its field \<^verbatim>\<open>id\<close>. The model is the list of its values, and a read of
  the record by key finds the value with that id.
\<close>

definition gridSystemAt :: "GridSystem list \<Rightarrow> string \<Rightarrow> GridSystem option" where
  "gridSystemAt gridSystems k = find (\<lambda>g. gs_id g = k) gridSystems"

text \<open>
  \<^verbatim>\<open>this.routes\<close> is a record of records of paths. \<open>getRoute\<close> is
  \<^verbatim>\<open>this.routes[fromSystemId]?.[toSystemId]\<close>.
\<close>

type_synonym Routes = "string \<Rightarrow> (string \<Rightarrow> (int \<times> int) list option) option"

definition getRoute :: "Routes \<Rightarrow> string \<Rightarrow> string \<Rightarrow> (int \<times> int) list option" where
  "getRoute routes fromSystemId toSystemId =
     (case routes fromSystemId of None \<Rightarrow> None | Some row \<Rightarrow> row toSystemId)"

text \<open>\<^verbatim>\<open>this.routes[k1] ??= {}; this.routes[k1]![k2] = route\<close>.\<close>

definition setRoute :: "Routes \<Rightarrow> string \<Rightarrow> string \<Rightarrow> (int \<times> int) list \<Rightarrow> Routes" where
  "setRoute routes k1 k2 route =
     (case routes k1 of
        None \<Rightarrow> routes(k1 \<mapsto> Map.empty(k2 \<mapsto> route))
      | Some row \<Rightarrow> routes(k1 \<mapsto> row(k2 \<mapsto> route)))"

definition recordRoute :: "Routes \<Rightarrow> RuntimeLink \<Rightarrow> (int \<times> int) list \<Rightarrow> Routes" where
  "recordRoute routes link route =
     setRoute (setRoute routes (link_a link) (link_b link) route)
       (link_b link) (link_a link) (rev route)"

text \<open>
  A cell of the tile grid: \<^verbatim>\<open>undefined\<close> when there is no such column or no such row.
  \<^verbatim>\<open>this.grid[x]![y]!.push(obj)\<close> throws when the cell is \<^verbatim>\<open>undefined\<close>.
\<close>

definition gridCell :: "TileGrid \<Rightarrow> int \<Rightarrow> int \<Rightarrow> SimulatorObject list option" where
  "gridCell grid x y =
     (case arrayGet grid x of
        None \<Rightarrow> None
      | Some None \<Rightarrow> None
      | Some (Some column) \<Rightarrow> arrayGet column y)"

definition pushObject :: "TileGrid \<Rightarrow> int \<Rightarrow> int \<Rightarrow> SimulatorObject \<Rightarrow> TileGrid outcome" where
  "pushObject grid x y obj =
     (case arrayGet grid x of
        None \<Rightarrow> Throws TypeError
      | Some None \<Rightarrow> Throws TypeError
      | Some (Some column) \<Rightarrow>
          (case arrayGet column y of
             None \<Rightarrow> Throws TypeError
           | Some objects \<Rightarrow>
               Returns (grid[nat x := Some (column[nat y := objects @ [obj]])])))"

text \<open>
  The filter of the available ports:
  \<^verbatim>\<open>this.grid[port.x]?.[port.y]?.at(-1)?.type === SimulatorObjectType.Port\<close>.
\<close>

definition isOpenPort :: "TileGrid \<Rightarrow> int \<times> int \<Rightarrow> bool" where
  "isOpenPort grid port =
     (case gridCell grid (fst port) (snd port) of
        None \<Rightarrow> False
      | Some objects \<Rightarrow> objects \<noteq> [] \<and> objType (last objects) = Port)"

text \<open>\<^verbatim>\<open>"blackbox" in obj && obj.blackbox\<close>.\<close>

fun isBlackbox :: "SimulatorObject \<Rightarrow> bool" where
  "isBlackbox (SimulatorSubsystem s d bb) = bb"
| "isBlackbox (SimulatorSystemTitle s bb chars) = bb"
| "isBlackbox (SimulatorSystemTitlePadding s bb) = bb"
| "isBlackbox obj = False"

text \<open>Closing and opening ports: \<^verbatim>\<open>setWeightAt\<close> on every port of a list.\<close>

fun setWeights :: "Grid \<Rightarrow> (int \<times> int) list \<Rightarrow> number \<Rightarrow> Grid outcome" where
  "setWeights finderGrid [] wt = Returns finderGrid"
| "setWeights finderGrid (port # rest) wt =
     andThen (setWeightAt finderGrid (fst port) (snd port) wt) (\<lambda>g. setWeights g rest wt)"

text \<open>
  The ports of the grid systems that the path may not traverse, in the order of the two
  nested loops.
\<close>

definition deniedPorts :: "GridSystem list \<Rightarrow> string list \<Rightarrow> (int \<times> int) list" where
  "deniedPorts gridSystems allowedSystems =
     concat (map gs_ports (filter (\<lambda>gridSS. gs_id gridSS \<notin> set allowedSystems) gridSystems))"

text \<open>
  The candidates: every pair of an available port of A and an available port of B, with
  the Euclidean distance between them, sorted by that distance with the stable sort of
  \<^verbatim>\<open>Array.prototype.sort\<close>.
\<close>

definition portDistance :: "(int \<times> int) \<times> (int \<times> int) \<Rightarrow> real" where
  "portDistance c =
     sqrt (real_of_int ((fst (snd c) - fst (fst c))\<^sup>2 + (snd (snd c) - snd (fst c))\<^sup>2))"

definition candidatePairs ::
  "(int \<times> int) list \<Rightarrow> (int \<times> int) list \<Rightarrow> ((int \<times> int) \<times> (int \<times> int)) list" where
  "candidatePairs subsystemAPorts subsystemBPorts =
     sort_key portDistance
       (concat (map (\<lambda>portA. map (\<lambda>portB. (portA, portB)) subsystemBPorts) subsystemAPorts))"

text \<open>
  The loop over the candidates up to its \<^verbatim>\<open>break\<close>: the first candidate for which
  \<^verbatim>\<open>findPath\<close> returns a path that is not empty, with that path. \<^verbatim>\<open>findPath\<close> is
  imported from the path finder with the grid as its last argument; it is the method
  \<open>findPath\<close> above with the default options. Before every call the grid is reset, and
  the search state that the call leaves in the grid is not read before the next reset, so
  the model does not keep it.
\<close>

fun firstRoute ::
  "Grid \<Rightarrow> ((int \<times> int) \<times> (int \<times> int)) list
     \<Rightarrow> ((int \<times> int) list \<times> (int \<times> int) \<times> (int \<times> int)) option outcome" where
  "firstRoute finderGrid [] = Returns None"
| "firstRoute finderGrid ((portA, portB) # rest) =
     andThen
       (findPath (newPathFinder \<lparr> opt_weight = None, opt_turnPenalty = None \<rparr>)
          (fst portA) (snd portA) (fst portB) (snd portB) (reset finderGrid))
       (\<lambda>route. if route \<noteq> [] then Returns (Some (route, portA, portB))
                else firstRoute finderGrid rest)"

text \<open>
  The cell before the first cell of a route and the cell after its last one: the cell
  next to the port on the side of the box.
\<close>

definition besidePort :: "GridSystem \<Rightarrow> int \<times> int \<Rightarrow> int \<times> int" where
  "besidePort subsystem port =
     (if fst port < x1 subsystem then (fst port + 1, snd port)
      else if fst port > x2 subsystem then (fst port - 1, snd port)
      else if snd port < y1 subsystem then (fst port, snd port + 1)
      else (fst port, snd port - 1))"

text \<open>The tile of a cell from the cells before and after it; no tile when no case applies.\<close>

definition linkDirection ::
  "int \<times> int \<Rightarrow> int \<times> int \<Rightarrow> int \<times> int \<Rightarrow> SimulatorLinkDirectionType option" where
  "linkDirection before cell after =
     (let xBefore = fst before; yBefore = snd before; x = fst cell; y = snd cell;
          xAfter = fst after; yAfter = snd after in
      if yBefore = y \<and> yAfter = y then Some Horizontal
      else if xBefore = x \<and> xAfter = x then Some Vertical
      else if (xBefore = x \<and> yBefore > y \<and> xAfter > x \<and> yAfter = y) \<or>
              (yBefore = y \<and> xBefore > x \<and> yAfter > y \<and> xAfter = x) then Some BottomToRight
      else if (xBefore < x \<and> yBefore = y \<and> xAfter = x \<and> yAfter > y) \<or>
              (yBefore > y \<and> xBefore = x \<and> yAfter = y \<and> xAfter < x) then Some BottomToLeft
      else if (xBefore = x \<and> yBefore < y \<and> xAfter < x \<and> yAfter = y) \<or>
              (yBefore = y \<and> xBefore < x \<and> yAfter < y \<and> xAfter = x) then Some TopToLeft
      else if (xBefore > x \<and> yBefore = y \<and> xAfter = x \<and> yAfter < y) \<or>
              (yBefore < y \<and> xBefore = x \<and> yAfter = y \<and> xAfter > x) then Some TopToRight
      else None)"

text \<open>
  One turn of the loop over the cells of the route that was found: the weight of the cell
  becomes 2, and unless the cell holds a black box it gets the tile of the link.
\<close>

definition paintCell ::
  "RuntimeLink \<Rightarrow> GridSystem \<Rightarrow> GridSystem \<Rightarrow> int \<times> int \<Rightarrow> int \<times> int \<Rightarrow> (int \<times> int) list
     \<Rightarrow> nat \<Rightarrow> TileGrid \<times> Grid \<Rightarrow> (TileGrid \<times> Grid) outcome" where
  "paintCell link subsystemA subsystemB portA portB route i st =
     (let grid = fst st; cell = route ! i in
      andThen (setWeightAt (snd st) (fst cell) (snd cell) (Num 2)) (\<lambda>finderGrid.
        case gridCell grid (fst cell) (snd cell) of
          None \<Rightarrow> Throws TypeError
        | Some objects \<Rightarrow>
            if list_ex isBlackbox objects then Returns (grid, finderGrid)
            else
              (let before =
                     (if length route = 1 then portA
                      else if i = 0 then besidePort subsystemA portA
                      else route ! (i - 1));
                   after =
                     (if length route = 1 then portB
                      else if i = 0 then route ! (i + 1)
                      else if i = length route - 1 then besidePort subsystemB portB
                      else route ! (i + 1))
               in case linkDirection before cell after of
                    None \<Rightarrow> Returns (grid, finderGrid)
                  | Some direction \<Rightarrow>
                      andThen (pushObject grid (fst cell) (snd cell) (SimulatorLink direction link))
                        (\<lambda>grid1. Returns (grid1, finderGrid)))))"

fun paintRoute ::
  "RuntimeLink \<Rightarrow> GridSystem \<Rightarrow> GridSystem \<Rightarrow> int \<times> int \<Rightarrow> int \<times> int \<Rightarrow> (int \<times> int) list
     \<Rightarrow> nat list \<Rightarrow> TileGrid \<times> Grid \<Rightarrow> (TileGrid \<times> Grid) outcome" where
  "paintRoute link subsystemA subsystemB portA portB route [] st = Returns st"
| "paintRoute link subsystemA subsystemB portA portB route (i # rest) st =
     andThen (paintCell link subsystemA subsystemB portA portB route i st)
       (paintRoute link subsystemA subsystemB portA portB route rest)"

text \<open>
  What \<open>drawLinks\<close> changes: \<^verbatim>\<open>this.routes\<close>, \<^verbatim>\<open>this.grid\<close> and the grid of the path
  finder that \<^verbatim>\<open>compute\<close> passes to it. The finder grid of the model is in its reset
  state after a link was routed: it keeps the weights only.
\<close>

record Drawing =
  sim_routes :: Routes
  sim_grid :: TileGrid
  sim_finderGrid :: Grid

text \<open>
  The part of the loop over the candidates after a route was found, and what is left of
  the loop when none was: the route is recorded in both directions and painted.
\<close>

definition drawRoute ::
  "Drawing \<Rightarrow> Grid \<Rightarrow> RuntimeLink \<Rightarrow> GridSystem \<Rightarrow> GridSystem
     \<Rightarrow> ((int \<times> int) list \<times> (int \<times> int) \<times> (int \<times> int)) option \<Rightarrow> Drawing outcome" where
  "drawRoute st finderGrid link subsystemA subsystemB found =
     (case found of
        None \<Rightarrow> Returns (st\<lparr> sim_finderGrid := reset finderGrid \<rparr>)
      | Some (route, portA, portB) \<Rightarrow>
          andThen
            (paintRoute link subsystemA subsystemB portA portB route [0 ..< length route]
               (sim_grid st, reset finderGrid))
            (\<lambda>painted. Returns \<lparr> sim_routes = recordRoute (sim_routes st) link route,
                                  sim_grid = fst painted, sim_finderGrid = snd painted \<rparr>))"

text \<open>
  The body of the loop of \<open>drawLinks\<close> over the links, from the filter of the available
  ports on: the candidates are tried, the route is drawn, and the ports that were closed
  get the weight 1 again.
\<close>

definition routeLink ::
  "Drawing \<Rightarrow> Grid \<Rightarrow> RuntimeLink \<Rightarrow> (int \<times> int) list \<Rightarrow> GridSystem \<Rightarrow> GridSystem
     \<Rightarrow> Drawing outcome" where
  "routeLink st finderGrid link denied subsystemA subsystemB =
     (let subsystemAPorts = filter (isOpenPort (sim_grid st)) (gs_ports subsystemA);
          subsystemBPorts = filter (isOpenPort (sim_grid st)) (gs_ports subsystemB)
      in andThen (firstRoute finderGrid (candidatePairs subsystemAPorts subsystemBPorts)) (\<lambda>found.
         andThen (drawRoute st finderGrid link subsystemA subsystemB found) (\<lambda>st1.
         andThen (setWeights (sim_finderGrid st1) denied (Num 1)) (\<lambda>finderGrid2.
         Returns (st1\<lparr> sim_finderGrid := finderGrid2 \<rparr>)))))"

text \<open>
  The whole body. Reading \<^verbatim>\<open>link.systemA.parent\<close> throws when the endpoint was not
  resolved, and reading \<^verbatim>\<open>subsystemA.ports\<close> throws when no grid system has the endpoint
  as its id.
\<close>

definition drawLink :: "GridSystem list \<Rightarrow> Drawing \<Rightarrow> RoutedLink \<Rightarrow> Drawing outcome" where
  "drawLink gridSystems st rlink =
     (case (systemA rlink, systemB rlink) of
        (Some sysA, Some sysB) \<Rightarrow>
          (let link = rl_link rlink;
               allowedSystems =
                 link_a link # link_b link # parentIds (ref_parent sysA) @ parentIds (ref_parent sysB);
               denied = deniedPorts gridSystems allowedSystems
           in andThen (setWeights (sim_finderGrid st) denied PosInfinity) (\<lambda>finderGrid.
                case (gridSystemAt gridSystems (link_a link), gridSystemAt gridSystems (link_b link)) of
                  (Some subsystemA, Some subsystemB) \<Rightarrow>
                    routeLink st finderGrid link denied subsystemA subsystemB
                | _ \<Rightarrow> Throws TypeError))
      | _ \<Rightarrow> Throws TypeError)"

fun drawLinks :: "GridSystem list \<Rightarrow> RoutedLink list \<Rightarrow> Drawing \<Rightarrow> Drawing outcome" where
  "drawLinks gridSystems [] st = Returns st"
| "drawLinks gridSystems (rlink # rest) st =
     andThen (drawLink gridSystems st rlink) (drawLinks gridSystems rest)"

text \<open>
  The table of routes is symmetric when the route from \<open>k2\<close> to \<open>k1\<close> is the reverse
  of the route from \<open>k1\<close> to \<open>k2\<close>, for every route it holds.
\<close>

definition symmetricRoutes :: "Routes \<Rightarrow> bool" where
  "symmetricRoutes rs =
     (\<forall>k1 k2 route. getRoute rs k1 k2 = Some route \<longrightarrow> getRoute rs k2 k1 = Some (rev route))"

text \<open>
  A row of three cells for the examples: the port of \<open>a\<close> at \<open>(0, 0)\<close>, a free cell, the
  port of \<open>b\<close> at \<open>(2, 0)\<close>, and one link from \<open>a\<close> to \<open>b\<close>, both children of the root.
\<close>

definition rowSystems :: "GridSystem list" where
  "rowSystems =
     [\<lparr> gs_id = ''a'', x1 = - 1, x2 = - 1, y1 = 0, y2 = 0, worldX = - 1, worldY = 0,
        gs_width = 1, gs_height = 1, gs_ports = [(0, 0)], gs_title = (- 1, - 1, 0, 0), hidden = False \<rparr>,
      \<lparr> gs_id = ''b'', x1 = 3, x2 = 3, y1 = 0, y2 = 0, worldX = 3, worldY = 0,
        gs_width = 1, gs_height = 1, gs_ports = [(2, 0)], gs_title = (- 1, - 1, 0, 0), hidden = False \<rparr>]"

definition rowLink :: RoutedLink where
  "rowLink = RoutedLink (RuntimeLink ''a'' ''b'')
     (Some (RuntimeRef (Some ''a'') (Some (RuntimeRef None None))))
     (Some (RuntimeRef (Some ''b'') (Some (RuntimeRef None None))))"

definition rowDrawing :: Drawing where
  "rowDrawing =
     \<lparr> sim_routes = Map.empty,
       sim_grid = [Some [[SimulatorPort ''a'']], Some [[]], Some [[SimulatorPort ''b'']]],
       sim_finderGrid = newGrid 3 1 (Num 1) \<rparr>"

section \<open>Links of the loader and their validation\<close>

subsection \<open>Resolving the endpoints (enhanceLinks)\<close>

text \<open>
  The specification tree that \<open>load\<close> receives: a subsystem has an id, a position that
  may be missing, and subsystems; a missing list of subsystems is the empty list, as
  \<^verbatim>\<open>enhanceSubsystems\<close> makes it.
\<close>

datatype Subsystem =
  Subsystem (sub_id: string) (sub_position: "(int \<times> int) option") (sub_systems: "Subsystem list")

text \<open>\<^verbatim>\<open>String.prototype.split\<close> at a separator character; the empty string gives one empty part.\<close>

fun splitAt :: "char \<Rightarrow> string \<Rightarrow> string list" where
  "splitAt sep [] = [[]]"
| "splitAt sep (c # cs) =
     (if c = sep then [] # splitAt sep cs
      else (case splitAt sep cs of [] \<Rightarrow> [[c]] | part # parts \<Rightarrow> (c # part) # parts))"

text \<open>
  \<^verbatim>\<open>enhanceLinks\<close> starts at the root and, for every part of the dotted path, replaces
  the current system by its subsystem with that id, or by \<^verbatim>\<open>undefined\<close>, and stays at
  \<^verbatim>\<open>undefined\<close> from then on. The current system is given by what the loop reads of it,
  its subsystems; the result keeps the subsystem that was found last.
\<close>

definition descend ::
  "(Subsystem list \<times> Subsystem option) option \<Rightarrow> string \<Rightarrow> (Subsystem list \<times> Subsystem option) option" where
  "descend current subsystemId =
     (case current of
        None \<Rightarrow> None
      | Some (subsystems, found) \<Rightarrow>
          (case find (\<lambda>ss. sub_id ss = subsystemId) subsystems of
             None \<Rightarrow> None
           | Some ss \<Rightarrow> Some (sub_systems ss, Some ss)))"

definition resolveEndpoint :: "Subsystem list \<Rightarrow> string \<Rightarrow> Subsystem option" where
  "resolveEndpoint rootSystems path =
     (case foldl descend (Some (rootSystems, None)) (splitAt CHR ''.'' path) of
        None \<Rightarrow> None
      | Some (subsystems, found) \<Rightarrow> found)"

subsection \<open>Validation\<close>

datatype ValidationError = ValidationError (error_message: string) (error_path: string)

text \<open>
  Modelled from the spec: the function \<open>validate\<close> of the module \<^verbatim>\<open>validations\<close>, which
  \<open>load\<close> calls and which is not among the sources (only the tests of its errors are).
  The specification has it check, for each link, \<open>self-reference\<close> when \<open>a\<close> equals \<open>b\<close>
  after normalisation, \<open>missing\<close> on an endpoint that does not resolve, \<open>inaccurate\<close> on
  an endpoint that resolves to a system that has subsystems, and \<open>duplicate\<close> across the
  list of links, taking \<open>(a, b)\<close> and \<open>(b, a)\<close> as the same edge; the paths of the errors
  are \<open>/links/i\<close> and \<open>/links/i/a\<close>. The specification does not say what normalisation
  is: the test of a link from \<open>foo.bar\<close> to \<open>foo\<close> expects \<open>self-reference\<close>, so two
  endpoints count as the same when one is the other or lies inside it. It does not fix
  the order of the errors of one link either; the model reports them in the order of the
  sentence above, link by link.
\<close>

definition sameSystem :: "string \<Rightarrow> string \<Rightarrow> bool" where
  "sameSystem p q = (p = q \<or> startsWith p (q @ ''.'') \<or> startsWith q (p @ ''.''))"

definition sameEdge :: "RuntimeLink \<Rightarrow> RuntimeLink \<Rightarrow> bool" where
  "sameEdge l m =
     ((link_a l = link_a m \<and> link_b l = link_b m) \<or> (link_a l = link_b m \<and> link_b l = link_a m))"

definition isDuplicate :: "RuntimeLink list \<Rightarrow> nat \<Rightarrow> bool" where
  "isDuplicate links i = list_ex (\<lambda>j. j \<noteq> i \<and> sameEdge (links ! i) (links ! j)) [0 ..< length links]"

definition endpointErrors :: "Subsystem list \<Rightarrow> string \<Rightarrow> string \<Rightarrow> ValidationError list" where
  "endpointErrors rootSystems endpoint pointer =
     (case resolveEndpoint rootSystems endpoint of
        None \<Rightarrow> [ValidationError ''missing'' pointer]
      | Some ss \<Rightarrow> if sub_systems ss \<noteq> [] then [ValidationError ''inaccurate'' pointer] else [])"

definition linkErrors :: "Subsystem list \<Rightarrow> RuntimeLink list \<Rightarrow> nat \<Rightarrow> ValidationError list" where
  "linkErrors rootSystems links i =
     (let link = links ! i; pointer = ''/links/'' @ natToString i in
      (if sameSystem (link_a link) (link_b link)
       then [ValidationError ''self-reference'' pointer] else []) @
      endpointErrors rootSystems (link_a link) (pointer @ ''/a'') @
      endpointErrors rootSystems (link_b link) (pointer @ ''/b'') @
      (if isDuplicate links i then [ValidationError ''duplicate'' pointer] else []))"

definition validate :: "Subsystem list \<Rightarrow> RuntimeLink list \<Rightarrow> ValidationError list" where
  "validate rootSystems links = concat (map (linkErrors rootSystems links) [0 ..< length links])"

text \<open>The scenario of the test \<open>A <> B && B <> A\<close>: two siblings linked in both directions.\<close>

definition siblings :: "Subsystem list" where
  "siblings = [Subsystem ''foo'' (Some (1, 1)) [], Subsystem ''bar'' (Some (10, 1)) []]"

definition bothDirections :: "RuntimeLink list" where
  "bothDirections = [RuntimeLink ''foo'' ''bar'', RuntimeLink ''bar'' ''foo'']"

section \<open>Properties of the loader\<close>

subsection \<open>Sizes and ports\<close>

lemma computeSizes_member:
  "s \<in> set (allSubsystems (computeSizes forest links)) \<Longrightarrow>
     (ss_size s, ports s) = sizeAndPorts links (canonicalId s) (position s)"
proof (induction forest links arbitrary: s rule: computeSizes.induct)
  case (1 links)
  then show ?case by simp
next
  case (2 cid pos sz ps children rest links)
  obtain sz' ps' where sp: "sizeAndPorts links cid pos = (sz', ps')"
    by (cases "sizeAndPorts links cid pos")
  from "2.prems" sp
  consider "s = RuntimeSubsystem cid pos sz' ps' (computeSizes children links)"
    | "s \<in> set (allSubsystems (computeSizes children links))"
    | "s \<in> set (allSubsystems (computeSizes rest links))"
    by auto
  then show ?case
  proof cases
    case 1
    then show ?thesis by (simp add: sp)
  next
    case 2
    then show ?thesis using "2.IH"(1) sp by simp
  next
    case 3
    then show ?thesis using "2.IH"(2) sp by simp
  qed
qed

lemma topBottomPorts_3:
  "topBottomPorts (x + 1) (x + 3) y 3 = [(x + 1, y - 1), (x + 1, y + 3)]"
  by (simp add: topBottomPorts.simps)

lemma topBottomPorts_4:
  "topBottomPorts (x + 1) (x + 4) y 3 =
     [(x + 1, y - 1), (x + 1, y + 3), (x + 3, y - 1), (x + 3, y + 3)]"
  by (simp add: topBottomPorts.simps)

lemma sizeAndPorts_wide:
  assumes "4 < linksCount links cid"
  shows "sizeAndPorts links cid (x, y) =
          ((3 + (linksCount links cid - 4) mod 2, 3),
           [(x - 1, y + 1), (x + (3 + (linksCount links cid - 4) mod 2), y + 1)] @
           concat (map (\<lambda>k. [(x + k, y - 1), (x + k, y + 3)])
             (filter odd [0..(3 + (linksCount links cid - 4) mod 2) - 1])))"
proof -
  let ?n = "linksCount links cid"
  have sm: "(?n - 4) smod 2 = (?n - 4) mod 2"
    using assms by (simp add: smod_mod_positive)
  have "(?n - 4) mod 2 = 0 \<or> (?n - 4) mod 2 = 1" by presburger
  then show ?thesis
  proof
    assume z: "(?n - 4) mod 2 = 0"
    have f: "filter odd [0..(2::int)] = [1]" by (simp add: upto.simps)
    show ?thesis using assms z f topBottomPorts_3 [of x y]
      by (simp add: sizeAndPorts_def Let_def sm)
  next
    assume o: "(?n - 4) mod 2 = 1"
    have f: "filter odd [0..(3::int)] = [1, 3]" by (simp add: upto.simps)
    show ?thesis using assms o f topBottomPorts_4 [of x y]
      by (simp add: sizeAndPorts_def Let_def sm)
  qed
qed

lemma fooComputed:
  "computeSizes fooForest fooLinks =
   [RuntimeSubsystem ''foo'' (1, 1) (4, 3) [(0, 2), (5, 2), (2, 0), (2, 4), (4, 0), (4, 4)] [],
    RuntimeSubsystem ''bar'' (10, 1) (3, 3) [(11, 0), (13, 2), (11, 4), (9, 2)] []]"
  by code_simp

text \<open>
  Claim C6. Every subsystem that \<^verbatim>\<open>computeSizes\<close> leaves in the tree and that more than
  four links name (an endpoint starts with its canonical id) has height 3 and width
  \<open>3 + ((linksCount - 4) mod 2)\<close>. Its ports are, in order, the port left of the box and
  the port right of it, both one row below the top row, and then for every odd column
  \<open>k\<close> with \<open>0 \<le> k < width\<close> the port above the box and the port below it in that
  column. With five links the size is \<open>(4, 3)\<close> and four ports lie on the rows above and
  below the box.
\<close>

theorem computeSizes_more_than_four_links:
  assumes "s \<in> set (allSubsystems (computeSizes forest links))"
    and "4 < linksCount links (canonicalId s)"
  shows "ss_size s = (3 + (linksCount links (canonicalId s) - 4) mod 2, 3) \<and>
         ports s =
           [(fst (position s) - 1, snd (position s) + 1),
            (fst (position s) + fst (ss_size s), snd (position s) + 1)] @
           concat (map (\<lambda>k. [(fst (position s) + k, snd (position s) - 1),
                              (fst (position s) + k, snd (position s) + 3)])
             (filter odd [0..fst (ss_size s) - 1])) \<and>
         (linksCount links (canonicalId s) = 5 \<longrightarrow>
            ss_size s = (4, 3) \<and>
            length (filter (\<lambda>p. snd p = snd (position s) - 1 \<or> snd p = snd (position s) + 3)
              (ports s)) = 4)"
proof -
  obtain x y where pos: "position s = (x, y)" by (cases "position s")
  have eq: "(ss_size s, ports s) = sizeAndPorts links (canonicalId s) (x, y)"
    using computeSizes_member [OF assms(1)] pos by simp
  note w = sizeAndPorts_wide [OF assms(2), of x y]
  have sz: "ss_size s = (3 + (linksCount links (canonicalId s) - 4) mod 2, 3)"
    using eq w by simp
  have ps: "ports s = [(x - 1, y + 1), (x + fst (ss_size s), y + 1)] @
           concat (map (\<lambda>k. [(x + k, y - 1), (x + k, y + 3)]) (filter odd [0..fst (ss_size s) - 1]))"
    using eq w sz by simp
  have five: "ss_size s = (4, 3) \<and>
      length (filter (\<lambda>p. snd p = y - 1 \<or> snd p = y + 3) (ports s)) = 4"
    if "linksCount links (canonicalId s) = 5"
  proof -
    have s4: "ss_size s = (4, 3)" using sz that by simp
    have f: "filter odd [0..(3::int)] = [1, 3]" by (simp add: upto.simps)
    show ?thesis using ps s4 f by simp
  qed
  show ?thesis using sz ps five pos by simp
qed

theorem computeSizes_more_than_four_links_witness:
  "RuntimeSubsystem ''foo'' (1, 1) (4, 3) [(0, 2), (5, 2), (2, 0), (2, 4), (4, 0), (4, 4)] []
      \<in> set (allSubsystems (computeSizes fooForest fooLinks)) \<and>
   linksCount fooLinks ''foo'' = 5 \<and>
   ss_size (hd (computeSizes fooForest fooLinks)) = (4, 3) \<and>
   ports (hd (computeSizes fooForest fooLinks)) = [(0, 2), (5, 2), (2, 0), (2, 4), (4, 0), (4, 4)]"
proof -
  let ?s = "RuntimeSubsystem ''foo'' (1, 1) (4, 3) [(0, 2), (5, 2), (2, 0), (2, 4), (4, 0), (4, 4)] []"
  have m: "?s \<in> set (allSubsystems (computeSizes fooForest fooLinks))"
    by (simp add: fooComputed)
  have n: "linksCount fooLinks ''foo'' = 5" by code_simp
  have h: "4 < linksCount fooLinks (canonicalId ?s)" using n by simp
  from computeSizes_more_than_four_links [OF m h] n show ?thesis
    by (simp add: fooComputed m)
qed

subsection \<open>Keyframes\<close>

lemma set_foldl_setAdd: "set (foldl setAdd acc ks) = set acc \<union> set ks"
  by (induction ks arbitrary: acc) (auto simp: setAdd_def)

lemma distinct_foldl_setAdd: "distinct acc \<Longrightarrow> distinct (foldl setAdd acc ks)"
  by (induction ks arbitrary: acc) (auto simp: setAdd_def)

lemma set_sortedKeyframes: "set (sortedKeyframes steps) = keyframe ` set steps"
  by (simp add: sortedKeyframes_def defaultSort_def uniqueKeyframes_def set_foldl_setAdd)

lemma distinct_sortedKeyframes: "distinct (sortedKeyframes steps)"
  by (simp add: sortedKeyframes_def defaultSort_def uniqueKeyframes_def distinct_foldl_setAdd)

lemma length_sortedKeyframes: "length (sortedKeyframes steps) = card (keyframe ` set steps)"
  using distinct_card [OF distinct_sortedKeyframes, of steps] set_sortedKeyframes [of steps]
  by simp

lemma indexOfFrom_member:
  "v \<in> set xs \<Longrightarrow> i \<le> indexOfFrom i xs v \<and> indexOfFrom i xs v < i + int (length xs)"
proof (induction xs arbitrary: i)
  case Nil
  then show ?case by simp
next
  case (Cons x xs)
  show ?case
  proof (cases "x = v")
    case True
    then show ?thesis by simp
  next
    case False
    with Cons.prems have "v \<in> set xs" by simp
    from Cons.IH [OF this, of "i + 1"] False show ?thesis by simp
  qed
qed

lemma indexOfFrom_nth:
  "distinct xs \<Longrightarrow> j < length xs \<Longrightarrow> indexOfFrom i xs (xs ! j) = i + int j"
proof (induction xs arbitrary: i j)
  case Nil
  then show ?case by simp
next
  case (Cons x xs)
  show ?case
  proof (cases j)
    case 0
    then show ?thesis by simp
  next
    case (Suc j')
    with Cons.prems have "xs ! j' \<noteq> x" "j' < length xs" "distinct xs" by auto
    with Cons.IH [of j' "i + 1"] Suc show ?thesis by simp
  qed
qed

lemma indexOf_image:
  assumes "distinct xs"
  shows "indexOf xs ` set xs = {0 ..< int (length xs)}"
proof
  show "indexOf xs ` set xs \<subseteq> {0 ..< int (length xs)}"
    using indexOfFrom_member [of _ xs 0] by (auto simp: indexOf_def)
next
  show "{0 ..< int (length xs)} \<subseteq> indexOf xs ` set xs"
  proof
    fix k assume "k \<in> {0 ..< int (length xs)}"
    then have j: "nat k < length xs" and k: "k = int (nat k)" by auto
    have "indexOf xs (xs ! nat k) = k"
      using indexOfFrom_nth [OF assms j, of 0] k by (simp add: indexOf_def)
    moreover have "xs ! nat k \<in> set xs" using j by simp
    ultimately show "k \<in> indexOf xs ` set xs" by force
  qed
qed

text \<open>
  Claim C8. After normalisation the keyframes of the steps of a flow are exactly the
  integers \<open>0, \<dots>, k - 1\<close>, where \<open>k\<close> is the number of distinct keyframes the steps had:
  every normalised keyframe is in that range and every integer of the range is the
  keyframe of a step. This holds for every list of steps, the empty one included, and for
  whatever order the sort puts the distinct keyframes in.
\<close>

theorem normalizeKeyframes_dense_range:
  "set (map keyframe (normalizeKeyframes steps)) = {0 ..< int (card (set (map keyframe steps)))}"
proof -
  let ?ks = "sortedKeyframes steps"
  have "set (map keyframe (normalizeKeyframes steps)) = indexOf ?ks ` (keyframe ` set steps)"
    by (auto simp: normalizeKeyframes_def Let_def)
  also have "\<dots> = indexOf ?ks ` set ?ks" by (simp add: set_sortedKeyframes)
  also have "\<dots> = {0 ..< int (length ?ks)}" by (rule indexOf_image [OF distinct_sortedKeyframes])
  finally show ?thesis by (simp add: length_sortedKeyframes)
qed

text \<open>
  Claim C2. The keyframes \<open>10, 5, 5, 20\<close> are said to become \<open>1, 0, 0, 2\<close>, the ranks in
  ascending numeric order. The sort is called with no comparator, so it orders the distinct
  keyframes as the strings \<open>10\<close>, \<open>20\<close>, \<open>5\<close>, and the steps get \<open>0, 2, 2, 1\<close>.
\<close>

theorem normalizeKeyframes_10_5_5_20:
  "map keyframe (normalizeKeyframes
     [FlowStep 10 ''a'' ''b'', FlowStep 5 ''b'' ''c'', FlowStep 5 ''c'' ''d'', FlowStep 20 ''d'' ''a''])
   = [0, 2, 2, 1]"
  by code_simp

section \<open>Properties of the path finder\<close>

text \<open>The equations that evaluate a search on a concrete grid.\<close>

lemmas findPath_eval =
  findPath_def getNodeAt_def startSearch_def search.simps expand_def relax_def nextG_def
  getNeighbors_def isWalkableAt_def isInside_def markVisited_def heapTop_def backtrace.simps
  newGrid_def newPathFinder_def reset_def setWeight_def defaultFinder_def Let_def

subsection \<open>What a turn of the loop leaves unchanged\<close>

lemma relax_frame:
  assumes "relax finder endX endY node neighbor (grid, openList) = (grid', openList')"
  shows "width grid' = width grid" "height grid' = height grid"
    "weight (nodes grid' c) = weight (nodes grid c)"
    "c \<noteq> neighbor \<Longrightarrow> nodes grid' c = nodes grid c"
    "state (nodes grid neighbor) = Visited \<Longrightarrow> grid' = grid \<and> openList' = openList"
    "(state (nodes grid' c) = Visited) = (state (nodes grid c) = Visited)"
    "set openList \<subseteq> set openList'" "set openList' \<subseteq> insert neighbor (set openList)"
  using assms by (auto simp: relax_def Let_def split: if_splits)

lemma relax_parent:
  assumes "relax finder endX endY node neighbor (grid, openList) = (grid', openList')"
    and "state (nodes grid neighbor) \<noteq> Visited"
  shows "parent (nodes grid' neighbor) = parent (nodes grid neighbor) \<and> openList' = openList
         \<or> parent (nodes grid' neighbor) = Some node"
  using assms by (auto simp: relax_def Let_def split: if_splits)

lemma relax_walkable:
  assumes "relax finder endX endY node neighbor (grid, openList) = (grid', openList')"
  shows "isWalkableAt grid' x y = isWalkableAt grid x y" "isInside grid' x y = isInside grid x y"
  using relax_frame(1,2,3) [OF assms] by (simp_all add: isWalkableAt_def isInside_def)

lemma trail_transfer:
  assumes "trail grid s c cells"
    and "\<And>x. x \<in> set cells \<Longrightarrow> parent (nodes grid' x) = parent (nodes grid x)"
    and "\<And>x y. isWalkableAt grid' x y = isWalkableAt grid x y"
  shows "trail grid' s c cells"
  using assms(1,2)
proof (induction rule: trail.induct)
  case trail_start
  then show ?case by (simp add: trail.trail_start)
next
  case (trail_step c p cells)
  have "parent (nodes grid' c) = Some p" using trail_step.hyps(1) trail_step.prems [of c] by simp
  moreover have "trail grid' s p cells" using trail_step.IH trail_step.prems by simp
  ultimately show ?case using trail_step.hyps(3,4) assms(3) by (simp add: trail.trail_step)
qed

lemma visitedTrail_transfer:
  assumes "visitedTrail grid s c"
    and "\<And>x. state (nodes grid x) = Visited \<Longrightarrow>
            parent (nodes grid' x) = parent (nodes grid x) \<and> state (nodes grid' x) = Visited"
    and "\<And>x y. isWalkableAt grid' x y = isWalkableAt grid x y"
  shows "visitedTrail grid' s c"
proof -
  from assms(1) obtain cells where t: "trail grid s c cells"
    and v: "\<forall>x \<in> set cells. state (nodes grid x) = Visited"
    by (auto simp: visitedTrail_def)
  have "trail grid' s c cells"
  proof (rule trail_transfer [OF t])
    fix x assume "x \<in> set cells"
    then have "state (nodes grid x) = Visited" using v by blast
    then show "parent (nodes grid' x) = parent (nodes grid x)" using assms(2) by blast
  next
    fix x y show "isWalkableAt grid' x y = isWalkableAt grid x y" by (rule assms(3))
  qed
  moreover have "\<forall>x \<in> set cells. state (nodes grid' x) = Visited" using v assms(2) by blast
  ultimately show ?thesis by (auto simp: visitedTrail_def)
qed

lemma closedOkD:
  "closedOk grid s \<Longrightarrow> isInside grid (fst c) (snd c) \<Longrightarrow> state (nodes grid c) = Visited
     \<Longrightarrow> visitedTrail grid s c"
  unfolding closedOk_def by blast

lemma markVisited_simps [simp]:
  "parent (nodes (markVisited grid node) c) = parent (nodes grid c)"
  "weight (nodes (markVisited grid node) c) = weight (nodes grid c)"
  "state (nodes (markVisited grid node) c) = (if c = node then Visited else state (nodes grid c))"
  "width (markVisited grid node) = width grid" "height (markVisited grid node) = height grid"
  "isWalkableAt (markVisited grid node) x y = isWalkableAt grid x y"
  by (simp_all add: markVisited_def isWalkableAt_def)

lemma openOk_markVisited: "openOk grid s c \<Longrightarrow> openOk (markVisited grid node) s c"
  by (auto simp: openOk_def)

lemma searchInv_pop:
  assumes inv: "searchInv grid s openList" and ne: "openList \<noteq> []"
  shows "expandInv (markVisited grid (heapTop grid openList)) s (heapTop grid openList)
           (remove1 (heapTop grid openList) openList)"
proof -
  let ?node = "heapTop grid openList"
  let ?g1 = "markVisited grid ?node"
  have mem: "?node \<in> set openList" by (rule heapTop_member [OF ne])
  from inv have cl: "closedOk grid s"
    and st: "state (nodes grid s) = Visited \<or> openList = [s]"
    and op: "\<forall>c \<in> set openList. openOk grid s c"
    by (simp_all add: searchInv_def)
  have nodeok: "openOk grid s ?node" using op mem by blast
  then have nin: "isInside grid (fst ?node) (snd ?node)" by (simp add: openOk_def)
  have tr: "\<And>c. visitedTrail grid s c \<Longrightarrow> visitedTrail ?g1 s c"
    by (erule visitedTrail_transfer) simp_all
  have s1: "state (nodes ?g1 s) = Visited"
  proof (cases "?node = s")
    case True
    then show ?thesis by simp
  next
    case False
    have "openList \<noteq> [s]"
    proof
      assume "openList = [s]"
      then have "?node = s" by (simp add: heapTop_def)
      with False show False by simp
    qed
    with st have "state (nodes grid s) = Visited" by simp
    then show ?thesis by simp
  qed
  have nodetrail: "visitedTrail ?g1 s ?node"
  proof (cases "state (nodes grid ?node) = Visited")
    case True
    then have "visitedTrail grid s ?node" by (rule closedOkD [OF cl nin])
    then show ?thesis by (rule tr)
  next
    case False
    show ?thesis
    proof (cases "?node = s")
      case True
      have "trail ?g1 s s [s]" using cl by (intro trail_start) (simp add: closedOk_def)
      then show ?thesis using True s1 by (auto simp: visitedTrail_def)
    next
      case ns: False
      from nodeok False ns obtain p where p: "parent (nodes grid ?node) = Some p"
        "state (nodes grid p) = Visited" "isInside grid (fst p) (snd p)"
        "cardinalStep p ?node" "isWalkableAt grid (fst ?node) (snd ?node)"
        by (auto simp: openOk_def)
      have "visitedTrail grid s p" by (rule closedOkD [OF cl p(3) p(2)])
      then have "visitedTrail ?g1 s p" by (rule tr)
      then obtain cells where c: "trail ?g1 s p cells"
        "\<forall>x \<in> set cells. state (nodes ?g1 x) = Visited"
        by (auto simp: visitedTrail_def)
      have "trail ?g1 s ?node (?node # cells)"
        using p c(1) by (intro trail_step [where p = p]) simp_all
      then show ?thesis using c(2) unfolding visitedTrail_def
        by (intro exI [where x = "?node # cells"]) simp
    qed
  qed
  have cl1: "closedOk ?g1 s"
    unfolding closedOk_def
  proof (intro conjI allI impI)
    show "isInside ?g1 (fst s) (snd s)" using cl by (simp add: closedOk_def)
    show "parent (nodes ?g1 s) = None" using cl by (simp add: closedOk_def)
  next
    fix c assume c: "isInside ?g1 (fst c) (snd c) \<and> state (nodes ?g1 c) = Visited"
    show "visitedTrail ?g1 s c"
    proof (cases "c = ?node")
      case True
      then show ?thesis using nodetrail by simp
    next
      case False
      with c have "isInside grid (fst c) (snd c)" "state (nodes grid c) = Visited" by simp_all
      then have "visitedTrail grid s c" by (rule closedOkD [OF cl])
      then show ?thesis by (rule tr)
    qed
  qed
  have "\<forall>c \<in> set (remove1 ?node openList). openOk ?g1 s c"
  proof
    fix c assume "c \<in> set (remove1 ?node openList)"
    then have "c \<in> set openList" using set_remove1_subset [of ?node openList] by blast
    then show "openOk ?g1 s c" using op openOk_markVisited by blast
  qed
  moreover have "state (nodes ?g1 ?node) = Visited" by simp
  moreover have "isInside ?g1 (fst ?node) (snd ?node)" using nin by simp
  ultimately show ?thesis using cl1 s1 unfolding expandInv_def by blast
qed

lemma expandInv_relax:
  assumes inv: "expandInv grid s node openList"
    and nb: "isInside grid (fst neighbor) (snd neighbor)" "cardinalStep node neighbor"
      "isWalkableAt grid (fst neighbor) (snd neighbor)"
    and r: "relax finder endX endY node neighbor (grid, openList) = (grid', openList')"
  shows "expandInv grid' s node openList'"
proof (cases "state (nodes grid neighbor) = Visited")
  case True
  then show ?thesis using relax_frame(5) [OF r] inv by simp
next
  case nv: False
  from inv have cl: "closedOk grid s" and ss: "state (nodes grid s) = Visited"
    and sn: "state (nodes grid node) = Visited" and nin: "isInside grid (fst node) (snd node)"
    and op: "\<forall>c \<in> set openList. openOk grid s c"
    by (simp_all add: expandInv_def)
  have ne_s: "s \<noteq> neighbor" and ne_n: "node \<noteq> neighbor" using nv ss sn by auto
  have same: "\<And>c. state (nodes grid c) = Visited \<Longrightarrow> nodes grid' c = nodes grid c"
    using relax_frame(4) [OF r] nv by metis
  have vis: "\<And>c. (state (nodes grid' c) = Visited) = (state (nodes grid c) = Visited)"
    by (rule relax_frame(6) [OF r])
  have walk: "\<And>x y. isWalkableAt grid' x y = isWalkableAt grid x y"
    and ins: "\<And>x y. isInside grid' x y = isInside grid x y"
    by (rule relax_walkable [OF r])+
  have tr: "\<And>c. visitedTrail grid s c \<Longrightarrow> visitedTrail grid' s c"
  proof (erule visitedTrail_transfer)
    fix x assume "state (nodes grid x) = Visited"
    then show "parent (nodes grid' x) = parent (nodes grid x) \<and> state (nodes grid' x) = Visited"
      using same [of x] by simp
  next
    fix x y show "isWalkableAt grid' x y = isWalkableAt grid x y" by (rule walk)
  qed
  have cl': "closedOk grid' s"
    unfolding closedOk_def
  proof (intro conjI allI impI)
    show "isInside grid' (fst s) (snd s)" using cl ins by (simp add: closedOk_def)
    show "parent (nodes grid' s) = None" using cl same [OF ss] by (simp add: closedOk_def)
  next
    fix c assume "isInside grid' (fst c) (snd c) \<and> state (nodes grid' c) = Visited"
    then have "isInside grid (fst c) (snd c)" "state (nodes grid c) = Visited"
      using ins vis by simp_all
    then have "visitedTrail grid s c" by (rule closedOkD [OF cl])
    then show "visitedTrail grid' s c" by (rule tr)
  qed
  have old: "openOk grid' s c" if c: "openOk grid s c" "c \<noteq> neighbor" for c
  proof -
    have eq: "nodes grid' c = nodes grid c" by (rule relax_frame(4) [OF r c(2)])
    from c(1) consider "c = s" | "state (nodes grid c) = Visited"
      | p where "parent (nodes grid c) = Some p" "state (nodes grid p) = Visited"
          "isInside grid (fst p) (snd p)" "cardinalStep p c" "isWalkableAt grid (fst c) (snd c)"
      unfolding openOk_def by blast
    then show ?thesis
    proof cases
      case 1
      then show ?thesis using c(1) ins unfolding openOk_def by simp
    next
      case 2
      then show ?thesis using c(1) ins eq unfolding openOk_def by simp
    next
      case 3
      have "state (nodes grid' p) = Visited" using 3(2) vis by simp
      then show ?thesis using c(1) 3 ins walk eq unfolding openOk_def by simp
    qed
  qed
  have new: "openOk grid' s neighbor" if "parent (nodes grid' neighbor) = Some node"
    using that nb sn nin ins walk vis unfolding openOk_def by simp
  have "openOk grid' s c" if c: "c \<in> set openList'" for c
  proof (cases "c = neighbor")
    case False
    then have "c \<in> set openList" using c relax_frame(8) [OF r] by blast
    then show ?thesis using op old False by blast
  next
    case True
    from relax_parent [OF r nv] show ?thesis
    proof
      assume a: "parent (nodes grid' neighbor) = parent (nodes grid neighbor) \<and> openList' = openList"
      then have "openOk grid s neighbor" using c True op by simp
      then consider "neighbor = s" | "state (nodes grid neighbor) = Visited"
        | p where "parent (nodes grid neighbor) = Some p" "state (nodes grid p) = Visited"
            "isInside grid (fst p) (snd p)" "cardinalStep p neighbor"
        unfolding openOk_def by blast
      then show ?thesis
      proof cases
        case 1
        then show ?thesis using ne_s by simp
      next
        case 2
        then show ?thesis using nv by simp
      next
        case 3
        have "state (nodes grid' p) = Visited" using 3(2) vis by simp
        then show ?thesis using True a 3 nb ins walk unfolding openOk_def by simp
      qed
    next
      assume "parent (nodes grid' neighbor) = Some node"
      then show ?thesis using new True by simp
    qed
  qed
  then show ?thesis using cl' ss sn nin vis ins unfolding expandInv_def by simp
qed

lemma getNeighbors_step:
  "nb \<in> set (getNeighbors grid node) \<Longrightarrow>
     cardinalStep node nb \<and> isWalkableAt grid (fst nb) (snd nb)"
  by (auto simp: getNeighbors_def Let_def cardinalStep_def split: if_splits)

lemma expandInv_fold:
  assumes "expandInv grid s node openList"
    and "\<forall>nb \<in> set nbs. cardinalStep node nb \<and> isWalkableAt grid (fst nb) (snd nb)"
    and "fold (relax finder endX endY node) nbs (grid, openList) = (grid', openList')"
  shows "expandInv grid' s node openList'"
  using assms
proof (induction nbs arbitrary: grid openList)
  case Nil
  then show ?case by simp
next
  case (Cons nb nbs)
  obtain g1 o1 where r: "relax finder endX endY node nb (grid, openList) = (g1, o1)"
    by (cases "relax finder endX endY node nb (grid, openList)")
  have nbok: "cardinalStep node nb" "isWalkableAt grid (fst nb) (snd nb)"
    using Cons.prems(2) by simp_all
  then have nbin: "isInside grid (fst nb) (snd nb)" by (simp add: isWalkableAt_def)
  have i1: "expandInv g1 s node o1"
    by (rule expandInv_relax [OF Cons.prems(1) nbin nbok r])
  have "\<forall>n \<in> set nbs. cardinalStep node n \<and> isWalkableAt g1 (fst n) (snd n)"
    using Cons.prems(2) relax_walkable(1) [OF r] by simp
  moreover have "fold (relax finder endX endY node) nbs (g1, o1) = (grid', openList')"
    using Cons.prems(3) r by simp
  ultimately show ?case using Cons.IH [OF i1] by blast
qed

lemma searchInv_expand:
  assumes "searchInv grid s openList" and "openList \<noteq> []"
  shows "searchInv (fst (expand finder endX endY grid openList)) s
           (snd (expand finder endX endY grid openList))"
proof -
  let ?node = "heapTop grid openList"
  let ?g1 = "markVisited grid ?node"
  obtain g2 o2 where f: "fold (relax finder endX endY ?node) (getNeighbors ?g1 ?node)
      (?g1, remove1 ?node openList) = (g2, o2)"
    by (cases "fold (relax finder endX endY ?node) (getNeighbors ?g1 ?node) (?g1, remove1 ?node openList)")
  have "\<forall>nb \<in> set (getNeighbors ?g1 ?node).
          cardinalStep ?node nb \<and> isWalkableAt ?g1 (fst nb) (snd nb)"
    using getNeighbors_step [of _ ?g1 ?node] by blast
  then have "expandInv g2 s ?node o2"
    by (rule expandInv_fold [OF searchInv_pop [OF assms] _ f])
  then have "searchInv g2 s o2" by (simp add: expandInv_def searchInv_def)
  then show ?thesis using f by (simp add: expand_def Let_def)
qed

subsection \<open>The result of the loop\<close>

lemma fold_relax_frame:
  assumes "fold (relax finder endX endY node) nbs (grid, openList) = (grid', openList')"
  shows "width grid' = width grid \<and> height grid' = height grid \<and>
         (\<forall>c. weight (nodes grid' c) = weight (nodes grid c))"
  using assms
proof (induction nbs arbitrary: grid openList)
  case Nil
  then show ?case by simp
next
  case (Cons nb nbs)
  obtain g1 o1 where r: "relax finder endX endY node nb (grid, openList) = (g1, o1)"
    by (cases "relax finder endX endY node nb (grid, openList)")
  have "fold (relax finder endX endY node) nbs (g1, o1) = (grid', openList')"
    using Cons.prems r by simp
  from Cons.IH [OF this] relax_frame(1,2,3) [OF r] show ?case by simp
qed

lemma expand_frame:
  "width (fst (expand finder endX endY grid openList)) = width grid \<and>
   height (fst (expand finder endX endY grid openList)) = height grid \<and>
   (\<forall>c. weight (nodes (fst (expand finder endX endY grid openList)) c) = weight (nodes grid c))"
proof -
  let ?node = "heapTop grid openList"
  let ?g1 = "markVisited grid ?node"
  obtain g2 o2 where f: "fold (relax finder endX endY ?node) (getNeighbors ?g1 ?node)
      (?g1, remove1 ?node openList) = (g2, o2)"
    by (cases "fold (relax finder endX endY ?node) (getNeighbors ?g1 ?node) (?g1, remove1 ?node openList)")
  from fold_relax_frame [OF f] f show ?thesis by (simp add: expand_def Let_def)
qed

lemma search_frame:
  "search finder endX endY endNode grid openList = (grid', r) \<Longrightarrow>
     width grid' = width grid \<and> height grid' = height grid \<and>
     (\<forall>c. weight (nodes grid' c) = weight (nodes grid c))"
proof (induction finder endX endY endNode grid openList rule: search.induct)
  case (1 finder endX endY endNode grid openList)
  show ?case
  proof (cases "openList = []")
    case True
    then show ?thesis using "1.prems" by (subst (asm) search.simps) simp
  next
    case ne: False
    show ?thesis
    proof (cases "Some (heapTop grid openList) = endNode")
      case True
      then have "grid' = markVisited grid (heapTop grid openList)"
        using "1.prems" ne by (subst (asm) search.simps) simp
      then show ?thesis by simp
    next
      case False
      then have "search finder endX endY endNode (fst (expand finder endX endY grid openList))
          (snd (expand finder endX endY grid openList)) = (grid', r)"
        using "1.prems" ne by (subst (asm) search.simps) simp
      from "1.IH" [OF ne False this] expand_frame [of finder endX endY grid openList]
      show ?thesis by simp
    qed
  qed
qed

lemma search_hit:
  "searchInv grid s openList \<Longrightarrow>
   search finder endX endY endNode grid openList = (grid', Some n) \<Longrightarrow>
     endNode = Some n \<and> visitedTrail grid' s n"
proof (induction finder endX endY endNode grid openList rule: search.induct)
  case (1 finder endX endY endNode grid openList)
  show ?case
  proof (cases "openList = []")
    case True
    then show ?thesis using "1.prems"(2) by (subst (asm) search.simps) simp
  next
    case ne: False
    show ?thesis
    proof (cases "Some (heapTop grid openList) = endNode")
      case True
      then have g: "grid' = markVisited grid (heapTop grid openList)" and n: "n = heapTop grid openList"
        using "1.prems"(2) ne by (subst (asm) search.simps, simp)+
      from searchInv_pop [OF "1.prems"(1) ne]
      have "closedOk grid' s" "isInside grid' (fst n) (snd n)" "state (nodes grid' n) = Visited"
        unfolding g n by (simp_all add: expandInv_def)
      then have "visitedTrail grid' s n" by (rule closedOkD)
      then show ?thesis using True n by simp
    next
      case False
      then have "search finder endX endY endNode (fst (expand finder endX endY grid openList))
          (snd (expand finder endX endY grid openList)) = (grid', Some n)"
        using "1.prems"(2) ne by (subst (asm) search.simps) simp
      from "1.IH" [OF ne False searchInv_expand [OF "1.prems"(1) ne] this]
      show ?thesis .
    qed
  qed
qed

subsection \<open>Trails\<close>

lemma trail_ends: "trail grid s c cells \<Longrightarrow> cells \<noteq> [] \<and> hd cells = c \<and> last cells = s"
  by (induction rule: trail.induct) auto

lemma backtrace_trail:
  "trail grid s c cells \<Longrightarrow> backtrace grid c acc = Some (acc @ tl cells)"
proof (induction arbitrary: acc rule: trail.induct)
  case trail_start
  then show ?case by (subst backtrace.simps) simp
next
  case (trail_step c p cells)
  from trail_ends [OF trail_step.hyps(2)] have "cells = p # tl cells"
    by (cases cells) auto
  then have "(acc @ [p]) @ tl cells = acc @ cells" by (metis append.assoc append_Cons append_Nil)
  then show ?case using trail_step.IH [of "acc @ [p]"] trail_step.hyps(1)
    by (subst backtrace.simps) simp
qed

lemma fourConnected_snoc:
  "fourConnected (cells @ [a]) = (fourConnected cells \<and> (cells = [] \<or> cardinalStep (last cells) a))"
  by (induction cells rule: fourConnected.induct) auto

lemma cardinalStep_manhattan:
  "cardinalStep p c \<Longrightarrow> \<bar>fst c - fst s\<bar> + \<bar>snd c - snd s\<bar> \<le> \<bar>fst p - fst s\<bar> + \<bar>snd p - snd s\<bar> + 1"
  by (auto simp: cardinalStep_def)

lemma trail_path:
  "trail grid s c cells \<Longrightarrow>
     fourConnected (rev cells) \<and>
     \<bar>fst c - fst s\<bar> + \<bar>snd c - snd s\<bar> + 1 \<le> int (length cells) \<and>
     reachable grid s c"
proof (induction rule: trail.induct)
  case trail_start
  show ?case by (simp add: reachable_start)
next
  case (trail_step c p cells)
  from trail_ends [OF trail_step.hyps(2)] have e: "cells \<noteq> []" "hd cells = p" by simp_all
  then have l: "last (rev cells) = p" by (simp add: last_rev)
  have "fourConnected (rev (c # cells))"
    using trail_step.IH trail_step.hyps(3) l e(1) by (simp add: fourConnected_snoc)
  moreover have "\<bar>fst c - fst s\<bar> + \<bar>snd c - snd s\<bar> + 1 \<le> int (length (c # cells))"
    using trail_step.IH cardinalStep_manhattan [OF trail_step.hyps(3), of s] by simp
  moreover have "reachable grid s c"
    using trail_step.IH trail_step.hyps(3,4) by (blast intro: reachable_step)
  ultimately show ?case by blast
qed

lemma reachable_transfer:
  assumes "reachable grid' s c" and "\<And>x y. isWalkableAt grid' x y = isWalkableAt grid x y"
  shows "reachable grid s c"
  using assms(1)
proof (induction rule: reachable.induct)
  case reachable_start
  show ?case by (rule reachable.reachable_start)
next
  case (reachable_step c d)
  then show ?case using assms(2) by (blast intro: reachable.reachable_step)
qed

subsection \<open>A search on a grid that was reset\<close>

lemma reset_simps [simp]:
  "width (reset grid) = width grid" "height (reset grid) = height grid"
  "weight (nodes (reset grid) c) = weight (nodes grid c)"
  "isInside (reset grid) x y = isInside grid x y"
  "isWalkableAt (reset grid) x y = isWalkableAt grid x y"
  "isInside grid (fst c) (snd c) \<Longrightarrow> parent (nodes (reset grid) c) = None"
  "isInside grid (fst c) (snd c) \<Longrightarrow> state (nodes (reset grid) c) = NotVisited"
  by (simp_all add: reset_def isWalkableAt_def)

lemma startSearch_simps [simp]:
  "width (startSearch grid s) = width grid" "height (startSearch grid s) = height grid"
  "weight (nodes (startSearch grid s) c) = weight (nodes grid c)"
  "parent (nodes (startSearch grid s) c) = parent (nodes grid c)"
  "isInside (startSearch grid s) x y = isInside grid x y"
  "isWalkableAt (startSearch grid s) x y = isWalkableAt grid x y"
  "state (nodes (startSearch grid s) c) = (if c = s then WillVisit else state (nodes grid c))"
  by (simp_all add: startSearch_def isWalkableAt_def)

lemma searchInv_start:
  assumes "isInside grid (fst s) (snd s)"
  shows "searchInv (startSearch (reset grid) s) s [s]"
proof -
  have "closedOk (startSearch (reset grid) s) s"
    unfolding closedOk_def
  proof (intro conjI allI impI)
    show "isInside (startSearch (reset grid) s) (fst s) (snd s)" using assms by simp
    show "parent (nodes (startSearch (reset grid) s) s) = None" using assms by simp
  next
    fix c assume "isInside (startSearch (reset grid) s) (fst c) (snd c) \<and>
      state (nodes (startSearch (reset grid) s) c) = Visited"
    then have i: "isInside grid (fst c) (snd c)"
      and v: "state (nodes (startSearch (reset grid) s) c) = Visited" by simp_all
    have "state (nodes (startSearch (reset grid) s) c) \<noteq> Visited"
      using i by (cases "c = s") simp_all
    with v have False by simp
    then show "visitedTrail (startSearch (reset grid) s) s c" ..
  qed
  moreover have "openOk (startSearch (reset grid) s) s s" using assms by (simp add: openOk_def)
  ultimately show ?thesis by (simp add: searchInv_def)
qed

text \<open>What \<open>findPath\<close> returns on a grid that was reset, for a start inside the grid.\<close>

lemma findPath_reset:
  assumes s: "isInside grid sx sy"
  shows "(\<exists>endNode grid1.
            getNodeAt (reset grid) ex ey = Returns endNode \<and>
            search finder ex ey endNode (startSearch (reset grid) (sx, sy)) [(sx, sy)] = (grid1, None) \<and>
            findPath finder sx sy ex ey (reset grid) = Returns []) \<or>
         (\<exists>grid1 cells.
            search finder ex ey (Some (ex, ey)) (startSearch (reset grid) (sx, sy)) [(sx, sy)]
              = (grid1, Some (ex, ey)) \<and>
            trail grid1 (sx, sy) (ex, ey) cells \<and>
            (\<forall>x y. isWalkableAt grid1 x y = isWalkableAt grid x y) \<and>
            findPath finder sx sy ex ey (reset grid) = Returns (rev cells)) \<or>
         (findPath finder sx sy ex ey (reset grid) = Throws TypeError \<and> \<not> (0 \<le> ex \<and> ex < width grid))"
proof (cases "0 \<le> ex \<and> ex < width grid")
  case False
  have "getNodeAt (reset grid) sx sy = Returns (Some (sx, sy))"
    using s by (simp add: getNodeAt_def isInside_def)
  moreover have "getNodeAt (reset grid) ex ey = Throws TypeError"
    using False by (simp add: getNodeAt_def)
  ultimately have "findPath finder sx sy ex ey (reset grid) = Throws TypeError"
    by (simp add: findPath_def)
  then show ?thesis using False by blast
next
  case True
  let ?endNode = "if 0 \<le> ey \<and> ey < height grid then Some (ex, ey) else None"
  let ?g0 = "startSearch (reset grid) (sx, sy)"
  have gs: "getNodeAt (reset grid) sx sy = Returns (Some (sx, sy))"
    using s by (simp add: getNodeAt_def isInside_def)
  have ge: "getNodeAt (reset grid) ex ey = Returns ?endNode"
    using True by (simp add: getNodeAt_def)
  obtain grid1 r where sr: "search finder ex ey ?endNode ?g0 [(sx, sy)] = (grid1, r)"
    by (cases "search finder ex ey ?endNode ?g0 [(sx, sy)]")
  show ?thesis
  proof (cases r)
    case None
    then have "findPath finder sx sy ex ey (reset grid) = Returns []"
      using gs ge sr by (simp add: findPath_def)
    then show ?thesis using ge sr None by blast
  next
    case (Some n)
    have inv: "searchInv ?g0 (sx, sy) [(sx, sy)]" by (rule searchInv_start) (simp add: s)
    from search_hit [OF inv] sr Some
    have en: "?endNode = Some n" and vt: "visitedTrail grid1 (sx, sy) n" by simp_all
    from en have n: "n = (ex, ey)" and en': "?endNode = Some (ex, ey)" by (simp_all split: if_splits)
    from vt obtain cells where t: "trail grid1 (sx, sy) n cells" by (auto simp: visitedTrail_def)
    from trail_ends [OF t] have "cells = n # tl cells" by (cases cells) auto
    then have bt: "backtrace grid1 n [n] = Some cells"
      using backtrace_trail [OF t, of "[n]"] by simp
    have fp: "findPath finder sx sy ex ey (reset grid) = Returns (rev cells)"
      using gs ge sr Some bt by (simp add: findPath_def)
    have w: "\<forall>x y. isWalkableAt grid1 x y = isWalkableAt grid x y"
      using search_frame [OF sr] by (simp add: isWalkableAt_def isInside_def)
    show ?thesis using sr Some t fp w unfolding n en' by blast
  qed
qed

lemma findPath_outside:
  assumes "\<not> isInside grid sx sy"
  shows "findPath finder sx sy ex ey grid = Throws TypeError"
proof (cases "0 \<le> sx \<and> sx < width grid")
  case False
  then have "getNodeAt grid sx sy = Throws TypeError" by (simp add: getNodeAt_def)
  then show ?thesis by (simp add: findPath_def)
next
  case True
  then have n: "getNodeAt grid sx sy = Returns None"
    using assms by (auto simp: getNodeAt_def isInside_def)
  have "getNodeAt grid ex ey = Throws TypeError \<or> (\<exists>e. getNodeAt grid ex ey = Returns e)"
    by (simp add: getNodeAt_def)
  then show ?thesis using n by (auto simp: findPath_def)
qed

subsection \<open>The claims about the search\<close>

text \<open>
  Claim C3. On a grid that was reset, as the simulator does before every search, a path
  that \<open>findPath\<close> returns and that is not empty starts at the start cell, ends at the
  end cell, and every two consecutive cells of it differ by exactly 1 in exactly one
  coordinate. So the number of its cells is at least the Manhattan distance between start
  and end plus 1. That \<open>findPath\<close> returned at all already says that the start is inside
  the grid.
\<close>

theorem findPath_four_connected:
  assumes "findPath finder sx sy ex ey (reset grid) = Returns path" and "path \<noteq> []"
  shows "fourConnected path \<and> hd path = (sx, sy) \<and> last path = (ex, ey) \<and>
         \<bar>sx - ex\<bar> + \<bar>sy - ey\<bar> + 1 \<le> int (length path)"
proof -
  have s: "isInside grid sx sy"
  proof (rule ccontr)
    assume "\<not> isInside grid sx sy"
    then have "\<not> isInside (reset grid) sx sy" by simp
    from findPath_outside [OF this] assms(1) show False by simp
  qed
  from findPath_reset [OF s, of ex ey finder] assms
  obtain grid1 cells where t: "trail grid1 (sx, sy) (ex, ey) cells" and p: "path = rev cells"
    by auto
  from trail_ends [OF t] have "hd (rev cells) = (sx, sy)" "last (rev cells) = (ex, ey)"
    by (simp_all add: hd_rev last_rev)
  moreover from trail_path [OF t]
  have "fourConnected (rev cells)" "\<bar>ex - sx\<bar> + \<bar>ey - sy\<bar> + 1 \<le> int (length cells)" by simp_all
  ultimately show ?thesis unfolding p by (simp add: abs_minus_commute)
qed

text \<open>
  Claim C4. For a start and an end inside the grid, on a grid that was reset, \<open>findPath\<close>
  returns a path: it neither throws nor runs forever. The path is empty when the loop
  ends with an empty open list, and so it is when no sequence of cardinal steps through
  walkable cells leads from the start to the end.
\<close>

theorem findPath_total:
  assumes "isInside grid sx sy" and "isInside grid ex ey"
  shows "\<exists>path. findPath finder sx sy ex ey (reset grid) = Returns path \<and>
           (snd (search finder ex ey (Some (ex, ey)) (startSearch (reset grid) (sx, sy)) [(sx, sy)]) = None
              \<longrightarrow> path = []) \<and>
           (\<not> reachable grid (sx, sy) (ex, ey) \<longrightarrow> path = [])"
proof -
  have e: "getNodeAt (reset grid) ex ey = Returns (Some (ex, ey))"
    using assms(2) by (simp add: getNodeAt_def isInside_def)
  from findPath_reset [OF assms(1), of ex ey finder]
  consider grid1 where
      "search finder ex ey (Some (ex, ey)) (startSearch (reset grid) (sx, sy)) [(sx, sy)] = (grid1, None)"
      "findPath finder sx sy ex ey (reset grid) = Returns []"
    | grid1 cells where
      "search finder ex ey (Some (ex, ey)) (startSearch (reset grid) (sx, sy)) [(sx, sy)]
         = (grid1, Some (ex, ey))"
      "trail grid1 (sx, sy) (ex, ey) cells"
      "\<forall>x y. isWalkableAt grid1 x y = isWalkableAt grid x y"
      "findPath finder sx sy ex ey (reset grid) = Returns (rev cells)"
    using e assms(2) by (auto simp: isInside_def)
  then show ?thesis
  proof cases
    case 1
    then show ?thesis by simp
  next
    case 2
    from trail_path [OF 2(2)] have "reachable grid1 (sx, sy) (ex, ey)" by simp
    then have "reachable grid (sx, sy) (ex, ey)" by (rule reachable_transfer) (simp add: 2(3))
    then show ?thesis using 2(1,4) by simp
  qed
qed

lemma walled_unreachable: "reachable walled (0, 0) c \<Longrightarrow> c = (0, 0)"
proof (induction rule: reachable.induct)
  case reachable_start
  show ?case by simp
next
  case (reachable_step c d)
  obtain dx dy where d: "d = (dx, dy)" by (cases d)
  from reachable_step.hyps(2) reachable_step.IH
  have "dx = 0 \<and> \<bar>dy\<bar> = 1 \<or> dy = 0 \<and> \<bar>dx\<bar> = 1"
    by (auto simp: cardinalStep_def d)
  moreover from reachable_step.hyps(3)
  have "0 \<le> dx \<and> dx < 3 \<and> dy = 0 \<and> dx \<noteq> 1"
    by (auto simp: d isWalkableAt_def isInside_def walled_def setWeight_def newGrid_def
          split: if_splits)
  ultimately have False by (auto simp: abs_if split: if_splits)
  then show ?case ..
qed

theorem findPath_total_witness:
  "isInside walled 0 0 \<and> isInside walled 2 0 \<and> \<not> reachable walled (0, 0) (2, 0) \<and>
   findPath defaultFinder 0 0 2 0 (reset walled) = Returns []"
proof -
  have i: "isInside walled 0 0" "isInside walled 2 0"
    by (simp_all add: isInside_def walled_def setWeight_def newGrid_def)
  have u: "\<not> reachable walled (0, 0) (2, 0)" using walled_unreachable [of "(2, 0)"] by auto
  from findPath_total [OF i, of defaultFinder] u i show ?thesis by auto
qed

theorem findPath_four_connected_witness:
  "findPath defaultFinder 0 0 1 1 (reset corner) = Returns [(0, 0), (0, 1), (1, 1)] \<and>
   fourConnected [(0, 0), (0, 1), (1, 1)] \<and>
   \<bar>0 - 1\<bar> + \<bar>0 - 1\<bar> + 1 \<le> int (length [(0, 0), (0, 1), (1 :: int, 1 :: int)])"
proof -
  have f: "findPath defaultFinder 0 0 1 1 (reset corner) = Returns [(0, 0), (0, 1), (1, 1)]"
    by (simp add: findPath_eval corner_def)
  from findPath_four_connected [OF f] f show ?thesis by simp
qed

lemma getNeighbors_cardinal:
  "neighbor \<in> set (getNeighbors grid node) \<Longrightarrow>
     fst neighbor - fst node = 0 \<or> snd neighbor - snd node = 0"
  by (auto simp: getNeighbors_def Let_def split: if_splits)

text \<open>
  Claim C1, as amended. For every neighbour that \<open>getNeighbors\<close> gives, with finite
  scores, the tentative score is the score \<open>g\<close> of the current node plus 1, that sum
  multiplied by the weight of the neighbour, plus the turn penalty exactly when the
  current node has a parent and the step to the neighbour is not the step from the parent
  to the current node. When the neighbour is relaxed, this is the \<open>g\<close> it gets.
\<close>

theorem nextG_of_neighbor:
  assumes "neighbor \<in> set (getNeighbors grid node)"
    and "node_g (nodes grid node) = Num g"
    and "weight (nodes grid neighbor) = Num w"
    and "turnPenalty finder = Num p"
  shows "nextG finder grid node neighbor
           = Num ((g + 1) * w + (if stepTurns grid node neighbor then p else 0)) \<and>
         (state (nodes grid neighbor) \<noteq> Visited \<and>
          (state (nodes grid neighbor) \<noteq> WillVisit \<or>
           num_less (nextG finder grid node neighbor) (node_g (nodes grid neighbor)))
          \<longrightarrow> node_g (nodes (fst (relax finder endX endY node neighbor (grid, openList))) neighbor)
                = nextG finder grid node neighbor)"
proof -
  have c: "fst neighbor - fst node = 0 \<or> snd neighbor - snd node = 0"
    by (rule getNeighbors_cardinal [OF assms(1)])
  have t: "stepTurns grid node neighbor =
      (case parent (nodes grid node) of None \<Rightarrow> False
       | Some q \<Rightarrow> fst node - fst q \<noteq> fst neighbor - fst node \<or>
                  snd node - snd q \<noteq> snd neighbor - snd node)"
    by (auto simp: stepTurns_def split: option.splits)
  have "nextG finder grid node neighbor
          = Num ((g + 1) * w + (if stepTurns grid node neighbor then p else 0))"
    using c assms(2,3,4) unfolding t by (auto simp: nextG_def Let_def split: option.splits)
  moreover have "node_g (nodes (fst (relax finder endX endY node neighbor (grid, openList))) neighbor)
      = nextG finder grid node neighbor"
    if "state (nodes grid neighbor) \<noteq> Visited"
      "state (nodes grid neighbor) \<noteq> WillVisit \<or>
         num_less (nextG finder grid node neighbor) (node_g (nodes grid neighbor))"
    using that by (auto simp: relax_def Let_def)
  ultimately show ?thesis by blast
qed

lemma corridorAfterStart_eq:
  "corridorAfterStart =
     \<lparr> width = 1, height = 3,
       nodes = (\<lambda>c. \<lparr> weight = Num 1, parent = None, node_f = Num 0, node_g = Num 0,
                      node_h = Num 0, state = NotVisited \<rparr>)
         ((0, 2) := \<lparr> weight = Num 2, parent = None, node_f = Num 0, node_g = Num 0,
                      node_h = Num 0, state = NotVisited \<rparr>,
          (0, 0) := \<lparr> weight = Num 1, parent = None, node_f = Num 0, node_g = Num 0,
                      node_h = Num 0, state = Visited \<rparr>,
          (0, 1) := \<lparr> weight = Num 1, parent = Some (0, 0), node_f = Num 2, node_g = Num 1,
                      node_h = Num 1, state = WillVisit \<rparr>) \<rparr>"
  by (simp add: corridorAfterStart_def findPath_eval corridor_def fun_eq_iff)

theorem nextG_of_neighbor_witness:
  "(0, 2) \<in> set (getNeighbors corridorAfterStart (0, 1)) \<and>
   node_g (nodes corridorAfterStart (0, 1)) = Num 1 \<and>
   weight (nodes corridorAfterStart (0, 2)) = Num 2 \<and>
   turnPenalty defaultFinder = Num 1 \<and>
   \<not> stepTurns corridorAfterStart (0, 1) (0, 2) \<and>
   nextG defaultFinder corridorAfterStart (0, 1) (0, 2) = Num 4"
proof -
  have a: "(0, 2) \<in> set (getNeighbors corridorAfterStart (0, 1))"
    by (simp add: corridorAfterStart_eq getNeighbors_def isWalkableAt_def isInside_def)
  have b: "node_g (nodes corridorAfterStart (0, 1)) = Num 1"
    and c: "weight (nodes corridorAfterStart (0, 2)) = Num 2"
    by (simp_all add: corridorAfterStart_eq)
  have d: "turnPenalty defaultFinder = Num 1" by (simp add: defaultFinder_def newPathFinder_def)
  have e: "\<not> stepTurns corridorAfterStart (0, 1) (0, 2)"
    by (simp add: corridorAfterStart_eq stepTurns_def)
  from nextG_of_neighbor [OF a b c d] a b c d e show ?thesis by simp
qed

text \<open>
  Claim C1, as stated, reads the increment as 1 times the weight and so the tentative
  score as \<open>g + 1 * weight\<close>. In the corridor the node \<open>(0, 1)\<close> has \<open>g = 1\<close>, its
  neighbour \<open>(0, 2)\<close> has weight 2 and the step does not turn: the tentative score is
  \<open>(1 + 1) * 2 = 4\<close>, not \<open>1 + 1 * 2 = 3\<close>, and 4 is the \<open>g\<close> of \<open>(0, 2)\<close> when the
  search ends.
\<close>

theorem nextG_is_not_g_plus_weight:
  "(0, 2) \<in> set (getNeighbors corridorAfterStart (0, 1)) \<and>
   node_g (nodes corridorAfterStart (0, 1)) = Num 1 \<and>
   weight (nodes corridorAfterStart (0, 2)) = Num 2 \<and>
   \<not> stepTurns corridorAfterStart (0, 1) (0, 2) \<and>
   nextG defaultFinder corridorAfterStart (0, 1) (0, 2) \<noteq> Num (1 + 1 * 2) \<and>
   node_g (nodes (fst (search defaultFinder 0 2 (Some (0, 2))
     (startSearch (reset corridor) (0, 0)) [(0, 0)])) (0, 2)) = Num 4"
proof -
  have "nextG defaultFinder corridorAfterStart (0, 1) (0, 2) = Num 4"
    by (simp add: corridorAfterStart_eq nextG_def defaultFinder_def newPathFinder_def)
  moreover have "node_g (nodes (fst (search defaultFinder 0 2 (Some (0, 2))
     (startSearch (reset corridor) (0, 0)) [(0, 0)])) (0, 2)) = Num 4"
    by (simp add: findPath_eval corridor_def)
  ultimately show ?thesis
    by (simp add: corridorAfterStart_eq getNeighbors_def isWalkableAt_def isInside_def stepTurns_def)
qed

section \<open>Properties of the simulator\<close>

lemma boundariesLoop_bounds:
  "boundariesLoop (l, r, t, b) objs = (l', r', t', b') \<Longrightarrow>
     l' \<le> l \<and> t' \<le> t \<and> r \<le> r' \<and> b \<le> b' \<and>
     (\<forall>obj \<in> set objs. l' \<le> worldX obj \<and> t' \<le> worldY obj)"
proof (induction objs arbitrary: l r t b)
  case Nil
  then show ?case by simp
next
  case (Cons obj objs)
  let ?l = "if worldX obj < l then worldX obj else l"
  let ?r = "if worldX obj + gs_width obj > r then worldX obj + gs_width obj else r"
  let ?t = "if worldY obj < t then worldY obj else t"
  let ?b = "if worldY obj + gs_height obj > b then worldY obj + gs_height obj else b"
  from Cons.prems have "boundariesLoop (?l, ?r, ?t, ?b) objs = (l', r', t', b')" by simp
  from Cons.IH [OF this]
  have ih: "l' \<le> ?l" "t' \<le> ?t" "?r \<le> r'" "?b \<le> b'"
     "\<forall>obj \<in> set objs. l' \<le> worldX obj \<and> t' \<le> worldY obj" by blast+
  have "l' \<le> l" "l' \<le> worldX obj" using ih(1) by (auto split: if_splits)
  moreover have "t' \<le> t" "t' \<le> worldY obj" using ih(2) by (auto split: if_splits)
  moreover have "r \<le> r'" using ih(3) by (auto split: if_splits)
  moreover have "b \<le> b'" using ih(4) by (auto split: if_splits)
  ultimately show ?case using ih(5) by simp
qed

text \<open>
  Claim C9. \<^verbatim>\<open>compute\<close> takes the boundaries of the grid systems and then writes their
  grid positions. For a margin that is not negative, every grid system then has
  \<open>x1 = worldX + translateX\<close> and \<open>y1 = worldY + translateY\<close>, the translation is the
  negation of the left and top of the boundaries, and \<open>x1\<close> and \<open>y1\<close> are not negative.
\<close>

theorem grid_positions_nonnegative:
  assumes "0 \<le> systemMargin"
    and "obj \<in> set (computeSystemPositions (computeBoundaries systemMargin gridSystems) gridSystems)"
  shows "x1 obj = worldX obj + translateX (computeBoundaries systemMargin gridSystems) \<and>
         y1 obj = worldY obj + translateY (computeBoundaries systemMargin gridSystems) \<and>
         translateX (computeBoundaries systemMargin gridSystems)
           = - b_left (computeBoundaries systemMargin gridSystems) \<and>
         translateY (computeBoundaries systemMargin gridSystems)
           = - b_top (computeBoundaries systemMargin gridSystems) \<and>
         0 \<le> x1 obj \<and> 0 \<le> y1 obj"
proof -
  let ?B = "computeBoundaries systemMargin gridSystems"
  obtain l r t b where loop: "boundariesLoop (MAX_SAFE_INTEGER, 0, MAX_SAFE_INTEGER, 0) gridSystems = (l, r, t, b)"
    by (metis prod_cases4)
  from assms(2) obtain src where src: "src \<in> set gridSystems"
    and obj: "obj = src\<lparr> x1 := worldX src + translateX ?B,
                         x2 := worldX src + translateX ?B + gs_width src - 1,
                         y1 := worldY src + translateY ?B,
                         y2 := worldY src + translateY ?B + gs_height src - 1 \<rparr>"
    by (auto simp: computeSystemPositions_def Let_def)
  from boundariesLoop_bounds [OF loop] src
  have lw: "l \<le> worldX src" and tw: "t \<le> worldY src" by blast+
  have tx: "translateX ?B = - b_left ?B" and ty: "translateY ?B = - b_top ?B"
    by (simp_all add: computeBoundaries_def loop Let_def)
  have bl: "b_left ?B = (if l > r then r else l) - systemMargin * 5"
    and bt: "b_top ?B = (if t > b then b else t) - systemMargin * 5"
    by (simp_all add: computeBoundaries_def loop Let_def)
  have "b_left ?B \<le> worldX src" using bl lw assms(1) by (simp split: if_splits)
  moreover have "b_top ?B \<le> worldY src" using bt tw assms(1) by (simp split: if_splits)
  ultimately show ?thesis using obj tx ty by simp
qed

theorem grid_positions_nonnegative_witness:
  "(0::int) \<le> 1 \<and>
   map (\<lambda>obj. (x1 obj, y1 obj)) (computeSystemPositions (computeBoundaries 1 twoSystems) twoSystems)
     = [(5, 10), (16, 5)] \<and>
   translateX (computeBoundaries 1 twoSystems) = 12 \<and>
   translateY (computeBoundaries 1 twoSystems) = 8"
proof -
  have b: "computeBoundaries 1 twoSystems =
     \<lparr> b_left = - 12, b_right = 13, b_top = - 8, b_bottom = 10, b_width = 25, b_height = 18,
       translateX = 12, translateY = 8 \<rparr>"
    by (simp add: computeBoundaries_def twoSystems_def MAX_SAFE_INTEGER_def)
  have m: "hd (computeSystemPositions (computeBoundaries 1 twoSystems) twoSystems)
      \<in> set (computeSystemPositions (computeBoundaries 1 twoSystems) twoSystems)"
    by (simp add: computeSystemPositions_def twoSystems_def)
  from grid_positions_nonnegative [OF _ m] b show ?thesis
    by (simp add: computeSystemPositions_def twoSystems_def)
qed

text \<open>
  Claim C10. For every tile grid, every translation and every world coordinate,
  \<^verbatim>\<open>getObjectsAt\<close> returns a list: the stack of the cell when the translated coordinates
  name a cell of the grid, and the empty list when the column index is outside the grid,
  when the column is a hole, or when the row index is outside the column.
\<close>

theorem getObjectsAt_total:
  "getObjectsAt grid boundaries wX wY =
     (if 0 \<le> wX + translateX boundaries \<and> wX + translateX boundaries < int (length grid)
      then (case grid ! nat (wX + translateX boundaries) of
              None \<Rightarrow> []
            | Some column \<Rightarrow>
                if 0 \<le> wY + translateY boundaries \<and> wY + translateY boundaries < int (length column)
                then column ! nat (wY + translateY boundaries) else [])
      else [])"
  by (simp add: getObjectsAt_def arrayGet_def Let_def split: option.splits)

theorem getObjectsAt_total_witness:
  "getObjectsAt [Some [[SimulatorPort ''foo'']], None] (computeBoundaries 1 []) (- 6) (- 5) = [] \<and>
   getObjectsAt [Some [[SimulatorPort ''foo'']], None] (computeBoundaries 1 []) (- 5) (- 5)
     = [SimulatorPort ''foo''] \<and>
   getObjectsAt [Some [[SimulatorPort ''foo'']], None] (computeBoundaries 1 []) (- 5) (- 4) = [] \<and>
   getObjectsAt [Some [[SimulatorPort ''foo'']], None] (computeBoundaries 1 []) (- 4) (- 5) = [] \<and>
   getObjectsAt [Some [[SimulatorPort ''foo'']], None] (computeBoundaries 1 []) (- 3) (- 5) = []"
proof -
  have b: "translateX (computeBoundaries 1 []) = 5" "translateY (computeBoundaries 1 []) = 5"
    by (simp_all add: computeBoundaries_def MAX_SAFE_INTEGER_def)
  show ?thesis
    by (simp add: getObjectsAt_total b)
qed

subsection \<open>Routes\<close>

lemma andThen_Returns:
  "(andThen m k = Returns v) = (\<exists>u. m = Returns u \<and> k u = Returns v)"
  by (cases m) (simp_all add: andThen_def)

lemma getRoute_setRoute:
  "getRoute (setRoute rs k1 k2 route) k k' =
     (if k = k1 \<and> k' = k2 then Some route else getRoute rs k k')"
  by (simp add: getRoute_def setRoute_def split: option.splits)

lemma getRoute_recordRoute:
  "getRoute (recordRoute rs link route) k k' =
     (if k = link_b link \<and> k' = link_a link then Some (rev route)
      else if k = link_a link \<and> k' = link_b link then Some route
      else getRoute rs k k')"
  by (simp add: recordRoute_def getRoute_setRoute)

lemma symmetricRoutes_recordRoute:
  assumes "symmetricRoutes rs" and "link_a link = link_b link \<Longrightarrow> rev route = route"
  shows "symmetricRoutes (recordRoute rs link route)"
  unfolding symmetricRoutes_def
proof (intro allI impI)
  fix k1 k2 r
  assume g: "getRoute (recordRoute rs link route) k1 k2 = Some r"
  show "getRoute (recordRoute rs link route) k2 k1 = Some (rev r)"
  proof (cases "k1 = link_b link \<and> k2 = link_a link")
    case True
    then have r: "r = rev route" using g by (simp add: getRoute_recordRoute)
    show ?thesis
    proof (cases "link_a link = link_b link")
      case same: True
      have "rev route = route" by (rule assms(2) [OF same])
      then have "rev r = rev route" using r by simp
      then show ?thesis using True same by (simp add: getRoute_recordRoute)
    next
      case False
      then show ?thesis using True r by (simp add: getRoute_recordRoute)
    qed
  next
    case nb: False
    show ?thesis
    proof (cases "k1 = link_a link \<and> k2 = link_b link")
      case True
      then have "r = route" using g nb by (simp add: getRoute_recordRoute)
      then show ?thesis using True by (simp add: getRoute_recordRoute)
    next
      case False
      have "getRoute (recordRoute rs link route) k1 k2 = getRoute rs k1 k2"
        using nb False by (simp only: getRoute_recordRoute if_False)
      then have "getRoute rs k1 k2 = Some r" using g by simp
      then have o: "getRoute rs k2 k1 = Some (rev r)"
        using assms(1) unfolding symmetricRoutes_def by blast
      have "\<not> (k2 = link_b link \<and> k1 = link_a link)" "\<not> (k2 = link_a link \<and> k1 = link_b link)"
        using nb False by blast+
      then have "getRoute (recordRoute rs link route) k2 k1 = getRoute rs k2 k1"
        by (simp only: getRoute_recordRoute if_False)
      then show ?thesis using o by simp
    qed
  qed
qed

lemma search_at_end:
  "search finder ex ey (Some s) grid [s] = (markVisited grid s, Some s)"
  by (subst search.simps) (simp add: heapTop_def)

lemma findPath_same_cell:
  "findPath finder x y x y (reset grid) =
     (if isInside grid x y then Returns [(x, y)] else Throws TypeError)"
proof (cases "isInside grid x y")
  case True
  then have g: "getNodeAt (reset grid) x y = Returns (Some (x, y))"
    by (simp add: getNodeAt_def isInside_def reset_def)
  have p: "parent (nodes (markVisited (startSearch (reset grid) (x, y)) (x, y)) (x, y)) = None"
    using True by (simp add: markVisited_def startSearch_def reset_def)
  have "backtrace (markVisited (startSearch (reset grid) (x, y)) (x, y)) (x, y) [(x, y)] = Some [(x, y)]"
    by (subst backtrace.simps) (simp only: p option.case)
  then show ?thesis using True g by (simp add: findPath_def search_at_end)
next
  case False
  have d: "width (reset grid) = width grid" "height (reset grid) = height grid"
    by (simp_all add: reset_def)
  show ?thesis
  proof (cases "0 \<le> x \<and> x < width grid")
    case True
    then have "getNodeAt (reset grid) x y = Returns None"
      using False by (auto simp: getNodeAt_def isInside_def d)
    then show ?thesis using False by (simp add: findPath_def)
  next
    case nx: False
    then have "getNodeAt (reset grid) x y = Throws TypeError" by (auto simp: getNodeAt_def d)
    then show ?thesis using False by (simp add: findPath_def)
  qed
qed

lemma hd_sort_key_least:
  assumes "x \<in> set xs"
  shows "f (hd (sort_key f xs)) \<le> f x"
proof -
  let ?ys = "sort_key f xs"
  have s: "sorted (map f ?ys)" by (rule sorted_sort_key)
  have m: "x \<in> set ?ys" using assms by simp
  then obtain y ys where ys: "?ys = y # ys" by (cases ?ys) auto
  then have "\<forall>z \<in> set ys. f y \<le> f z" using s by simp
  then show ?thesis using m ys by auto
qed

lemma portDistance_zero: "portDistance (p, q) \<le> 0 \<Longrightarrow> p = q"
proof -
  assume a: "portDistance (p, q) \<le> 0"
  let ?d = "(fst q - fst p)\<^sup>2 + (snd q - snd p)\<^sup>2"
  have "0 \<le> ?d" by simp
  moreover have "real_of_int ?d \<le> 0" using a by (simp add: portDistance_def)
  ultimately have "?d = 0" by linarith
  then have "fst q - fst p = 0 \<and> snd q - snd p = 0"
    by (simp add: sum_power2_eq_zero_iff)
  then show "p = q" by (simp add: prod_eq_iff)
qed

lemma candidatePairs_same_ports:
  assumes "candidatePairs ps ps = (portA, portB) # rest"
  shows "portA = portB"
proof -
  let ?all = "concat (map (\<lambda>portA. map (\<lambda>portB. (portA, portB)) ps) ps)"
  have "ps \<noteq> []" using assms by (auto simp: candidatePairs_def)
  then obtain p where p: "p \<in> set ps" by (cases ps) auto
  then have "(p, p) \<in> set ?all" by auto
  from hd_sort_key_least [OF this, of portDistance]
  have "portDistance (portA, portB) \<le> portDistance (p, p)"
    using assms by (simp add: candidatePairs_def)
  also have "portDistance (p, p) = 0" by (simp add: portDistance_def)
  finally show ?thesis by (rule portDistance_zero)
qed

lemma firstRoute_same_ports:
  assumes "firstRoute finderGrid (candidatePairs ps ps) = Returns (Some (route, portA, portB))"
  shows "rev route = route"
proof (cases "candidatePairs ps ps")
  case Nil
  then show ?thesis using assms by simp
next
  case (Cons c rest)
  obtain pa pb where c: "c = (pa, pb)" by (cases c)
  have "pa = pb" using candidatePairs_same_ports Cons c by blast
  then have "firstRoute finderGrid (candidatePairs ps ps) =
      (if isInside finderGrid (fst pa) (snd pa) then Returns (Some ([pa], pa, pa)) else Throws TypeError)"
    using Cons c by (simp add: findPath_same_cell andThen_def)
  then show ?thesis using assms by (auto split: if_splits)
qed

lemma drawRoute_routes:
  assumes "drawRoute st finderGrid link subsystemA subsystemB found = Returns st1"
  shows "(found = None \<and> sim_routes st1 = sim_routes st) \<or>
         (\<exists>route portA portB. found = Some (route, portA, portB) \<and>
            sim_routes st1 = recordRoute (sim_routes st) link route)"
proof (cases found)
  case None
  then show ?thesis using assms by (auto simp: drawRoute_def)
next
  case (Some t)
  obtain route portA portB where t: "t = (route, portA, portB)" by (cases t)
  from assms Some t obtain painted where
    "st1 = \<lparr> sim_routes = recordRoute (sim_routes st) link route,
             sim_grid = fst painted, sim_finderGrid = snd painted \<rparr>"
    by (auto simp: drawRoute_def andThen_Returns)
  then show ?thesis using Some t by simp
qed

lemma routeLink_routes:
  assumes "routeLink st finderGrid link denied subsystemA subsystemB = Returns st'"
  shows "sim_routes st' = sim_routes st \<or>
         (\<exists>route. sim_routes st' = recordRoute (sim_routes st) link route \<and>
            (subsystemA = subsystemB \<longrightarrow> rev route = route))"
proof -
  let ?pa = "filter (isOpenPort (sim_grid st)) (gs_ports subsystemA)"
  let ?pb = "filter (isOpenPort (sim_grid st)) (gs_ports subsystemB)"
  from assms obtain found st1 finderGrid2 where
    fr: "firstRoute finderGrid (candidatePairs ?pa ?pb) = Returns found"
    and dr: "drawRoute st finderGrid link subsystemA subsystemB found = Returns st1"
    and st': "st' = st1\<lparr> sim_finderGrid := finderGrid2 \<rparr>"
    unfolding routeLink_def Let_def andThen_Returns by blast
  from drawRoute_routes [OF dr] show ?thesis
  proof
    assume "found = None \<and> sim_routes st1 = sim_routes st"
    then show ?thesis using st' by simp
  next
    assume "\<exists>route portA portB. found = Some (route, portA, portB) \<and>
            sim_routes st1 = recordRoute (sim_routes st) link route"
    then obtain route portA portB where fo: "found = Some (route, portA, portB)"
      and rr: "sim_routes st1 = recordRoute (sim_routes st) link route" by blast
    have "rev route = route" if same: "subsystemA = subsystemB"
    proof -
      have "firstRoute finderGrid (candidatePairs ?pa ?pa) = Returns (Some (route, portA, portB))"
        using fr fo same by simp
      then show ?thesis by (rule firstRoute_same_ports)
    qed
    moreover have "sim_routes st' = recordRoute (sim_routes st) link route" using rr st' by simp
    ultimately show ?thesis by blast
  qed
qed

lemma drawLink_routes:
  assumes "drawLink gridSystems st rlink = Returns st'"
  shows "sim_routes st' = sim_routes st \<or>
         (\<exists>route. sim_routes st' = recordRoute (sim_routes st) (rl_link rlink) route \<and>
            (link_a (rl_link rlink) = link_b (rl_link rlink) \<longrightarrow> rev route = route))"
proof -
  let ?link = "rl_link rlink"
  obtain sysA where sa: "systemA rlink = Some sysA"
    using assms by (cases "systemA rlink") (simp_all add: drawLink_def)
  obtain sysB where sb: "systemB rlink = Some sysB"
    using assms sa by (cases "systemB rlink") (simp_all add: drawLink_def)
  let ?denied = "deniedPorts gridSystems
     (link_a ?link # link_b ?link # parentIds (ref_parent sysA) @ parentIds (ref_parent sysB))"
  have d: "drawLink gridSystems st rlink =
      andThen (setWeights (sim_finderGrid st) ?denied PosInfinity) (\<lambda>finderGrid.
        case (gridSystemAt gridSystems (link_a ?link), gridSystemAt gridSystems (link_b ?link)) of
          (Some subsystemA, Some subsystemB) \<Rightarrow>
            routeLink st finderGrid ?link ?denied subsystemA subsystemB
        | _ \<Rightarrow> Throws TypeError)"
    by (simp add: drawLink_def sa sb Let_def)
  from assms obtain finderGrid where
    c: "(case (gridSystemAt gridSystems (link_a ?link), gridSystemAt gridSystems (link_b ?link)) of
          (Some subsystemA, Some subsystemB) \<Rightarrow>
            routeLink st finderGrid ?link ?denied subsystemA subsystemB
        | _ \<Rightarrow> Throws TypeError) = Returns st'"
    unfolding d andThen_Returns by blast
  obtain subsystemA where ga: "gridSystemAt gridSystems (link_a ?link) = Some subsystemA"
    using c by (cases "gridSystemAt gridSystems (link_a ?link)") simp_all
  obtain subsystemB where gb: "gridSystemAt gridSystems (link_b ?link) = Some subsystemB"
    using c ga by (cases "gridSystemAt gridSystems (link_b ?link)") simp_all
  have r: "routeLink st finderGrid ?link ?denied subsystemA subsystemB = Returns st'"
    using c ga gb by simp
  have "subsystemA = subsystemB" if "link_a ?link = link_b ?link"
    using ga gb that by simp
  then show ?thesis using routeLink_routes [OF r] by blast
qed

lemma drawLink_symmetric:
  assumes "symmetricRoutes (sim_routes st)" and "drawLink gridSystems st rlink = Returns st'"
  shows "symmetricRoutes (sim_routes st')"
proof -
  from drawLink_routes [OF assms(2)] show ?thesis
  proof
    assume "sim_routes st' = sim_routes st"
    then show ?thesis using assms(1) by simp
  next
    assume "\<exists>route. sim_routes st' = recordRoute (sim_routes st) (rl_link rlink) route \<and>
            (link_a (rl_link rlink) = link_b (rl_link rlink) \<longrightarrow> rev route = route)"
    then obtain route where r: "sim_routes st' = recordRoute (sim_routes st) (rl_link rlink) route"
      and p: "link_a (rl_link rlink) = link_b (rl_link rlink) \<longrightarrow> rev route = route" by blast
    have "symmetricRoutes (recordRoute (sim_routes st) (rl_link rlink) route)"
      using p by (intro symmetricRoutes_recordRoute [OF assms(1)]) blast
    then show ?thesis using r by simp
  qed
qed

lemma drawLinks_symmetric:
  "symmetricRoutes (sim_routes st) \<Longrightarrow> drawLinks gridSystems links st = Returns st'
     \<Longrightarrow> symmetricRoutes (sim_routes st')"
proof (induction links arbitrary: st)
  case Nil
  then show ?case by simp
next
  case (Cons rlink rest)
  from Cons.prems(2) obtain st1 where a: "drawLink gridSystems st rlink = Returns st1"
    and b: "drawLinks gridSystems rest st1 = Returns st'"
    by (auto simp: andThen_Returns)
  have "symmetricRoutes (sim_routes st1)" by (rule drawLink_symmetric [OF Cons.prems(1) a])
  then show ?case using b by (rule Cons.IH)
qed

text \<open>
  Claim C5. \<open>drawLinks\<close> is the only step of \<^verbatim>\<open>compute\<close> that writes the routes. When
  it returns, and the table it started from was symmetric (the empty table of a new
  simulator is), every route that the table holds from \<open>k1\<close> to \<open>k2\<close>, so the route of
  every link for which one was found, has its reverse stored from \<open>k2\<close> to \<open>k1\<close>. A link
  from a system to itself is included: its first candidate joins a port to itself and its
  route is that one cell.
\<close>

theorem drawLinks_route_symmetry:
  assumes "symmetricRoutes (sim_routes st)"
    and "drawLinks gridSystems links st = Returns st'"
    and "getRoute (sim_routes st') k1 k2 = Some route"
  shows "getRoute (sim_routes st') k2 k1 = Some (rev route)"
  using drawLinks_symmetric [OF assms(1,2)] assms(3) unfolding symmetricRoutes_def by blast

text \<open>The equations that evaluate \<open>drawLinks\<close> on a concrete drawing.\<close>

lemmas drawLinks_eval =
  drawLink_def routeLink_def drawRoute_def paintCell_def linkDirection_def besidePort_def
  candidatePairs_def deniedPorts_def isOpenPort_def gridCell_def pushObject_def arrayGet_def
  gridSystemAt_def andThen_def setWeightAt_def
  findPath_def getNodeAt_def startSearch_def search.simps expand_def relax_def nextG_def
  getNeighbors_def isWalkableAt_def isInside_def markVisited_def heapTop_def backtrace.simps
  newGrid_def newPathFinder_def reset_def Let_def

lemma rowRoute:
  "firstRoute (sim_finderGrid rowDrawing) [((0, 0), (2, 0))]
     = Returns (Some ([(0, 0), (1, 0), (2, 0)], (0, 0), (2, 0)))"
  by (simp add: rowDrawing_def drawLinks_eval)

lemma rowDrawn:
  "\<exists>st'. drawLinks rowSystems [rowLink] rowDrawing = Returns st' \<and>
         sim_routes st' = recordRoute Map.empty (RuntimeLink ''a'' ''b'') [(0, 0), (1, 0), (2, 0)] \<and>
         sim_grid st' =
           [Some [[SimulatorPort ''a'', SimulatorLink Horizontal (RuntimeLink ''a'' ''b'')]],
            Some [[SimulatorLink Horizontal (RuntimeLink ''a'' ''b'')]],
            Some [[SimulatorPort ''b'', SimulatorLink Horizontal (RuntimeLink ''a'' ''b'')]]]"
  using rowRoute
  by (simp add: rowDrawing_def rowSystems_def rowLink_def drawLinks_eval upt_rec)

theorem drawLinks_route_symmetry_witness:
  "symmetricRoutes (sim_routes rowDrawing) \<and>
   (\<exists>st'. drawLinks rowSystems [rowLink] rowDrawing = Returns st' \<and>
      getRoute (sim_routes st') ''a'' ''b'' = Some [(0, 0), (1, 0), (2, 0)] \<and>
      getRoute (sim_routes st') ''b'' ''a'' = Some [(2, 0), (1, 0), (0, 0)])"
proof -
  have s: "symmetricRoutes (sim_routes rowDrawing)"
    by (simp add: symmetricRoutes_def rowDrawing_def getRoute_def)
  from rowDrawn obtain st' where d: "drawLinks rowSystems [rowLink] rowDrawing = Returns st'"
    and r: "sim_routes st' = recordRoute Map.empty (RuntimeLink ''a'' ''b'') [(0, 0), (1, 0), (2, 0)]"
    by blast
  have ab: "getRoute (sim_routes st') ''a'' ''b'' = Some [(0, 0), (1, 0), (2, 0)]"
    by (simp add: r getRoute_recordRoute)
  from drawLinks_route_symmetry [OF s d ab] s d ab show ?thesis by simp
qed

section \<open>Properties of the validation\<close>

lemma isDuplicate_reversed:
  assumes "i < length links" "j < length links" "i \<noteq> j"
    and "link_a (links ! i) = link_b (links ! j)" "link_b (links ! i) = link_a (links ! j)"
  shows "isDuplicate links i"
proof -
  have "j \<in> set [0 ..< length links]" using assms(2) by simp
  moreover have "j \<noteq> i \<and> sameEdge (links ! i) (links ! j)"
    using assms(3,4,5) by (simp add: sameEdge_def)
  ultimately show ?thesis unfolding isDuplicate_def list_ex_iff by blast
qed

lemma duplicate_reported:
  assumes "i < length links" and "isDuplicate links i"
  shows "ValidationError ''duplicate'' (''/links/'' @ natToString i) \<in> set (validate rootSystems links)"
proof -
  have "ValidationError ''duplicate'' (''/links/'' @ natToString i) \<in> set (linkErrors rootSystems links i)"
    using assms(2) by (simp add: linkErrors_def Let_def)
  moreover have "i \<in> set [0 ..< length links]" using assms(1) by simp
  ultimately show ?thesis unfolding validate_def set_concat set_map by blast
qed

lemma siblings_errors:
  "validate siblings bothDirections =
     [ValidationError ''duplicate'' ''/links/0'', ValidationError ''duplicate'' ''/links/1'']"
  by code_simp

text \<open>
  Claim C7. When link \<open>i\<close> has the endpoints \<open>(a, b)\<close> and another link \<open>j\<close> has
  \<open>(b, a)\<close>, validation reports the error \<open>duplicate\<close> with the path \<open>/links/i\<close> and the
  error \<open>duplicate\<close> with the path \<open>/links/j\<close>. For the siblings \<open>foo\<close> and \<open>bar\<close>
  linked in both directions these two errors, in this order, are all the errors.
\<close>

theorem validate_duplicate_pair:
  assumes "i < length links" and "j < length links" and "i \<noteq> j"
    and "link_a (links ! i) = link_b (links ! j)" and "link_b (links ! i) = link_a (links ! j)"
  shows "ValidationError ''duplicate'' (''/links/'' @ natToString i) \<in> set (validate rootSystems links) \<and>
         ValidationError ''duplicate'' (''/links/'' @ natToString j) \<in> set (validate rootSystems links) \<and>
         validate siblings bothDirections =
           [ValidationError ''duplicate'' ''/links/0'', ValidationError ''duplicate'' ''/links/1'']"
proof -
  have "isDuplicate links i" by (rule isDuplicate_reversed [OF assms])
  moreover have "isDuplicate links j"
    by (rule isDuplicate_reversed [OF assms(2) assms(1) assms(3) [symmetric] assms(5) [symmetric] assms(4) [symmetric]])
  ultimately show ?thesis using duplicate_reported assms(1,2) siblings_errors by blast
qed

theorem validate_duplicate_pair_witness:
  "(0::nat) < length bothDirections \<and> (1::nat) < length bothDirections \<and>
   link_a (bothDirections ! 0) = link_b (bothDirections ! 1) \<and>
   link_b (bothDirections ! 0) = link_a (bothDirections ! 1) \<and>
   ValidationError ''duplicate'' ''/links/0'' \<in> set (validate siblings bothDirections) \<and>
   ValidationError ''duplicate'' ''/links/1'' \<in> set (validate siblings bothDirections)"
proof -
  have l: "(0::nat) < length bothDirections" "(1::nat) < length bothDirections"
    by (simp_all add: bothDirections_def)
  have e: "link_a (bothDirections ! 0) = link_b (bothDirections ! 1)"
    "link_b (bothDirections ! 0) = link_a (bothDirections ! 1)"
    by (simp_all add: bothDirections_def)
  have n: "natToString 0 = ''0''" "natToString 1 = ''1''" by code_simp+
  from validate_duplicate_pair [OF l _ e, of siblings] l e n show ?thesis by simp
qed

end
